theory Spec2Isabelle
  imports Main "HOL-Library.Word"
begin

unbundle bit_operations_syntax

section \<open>The purge pass of src/purge.cpp\<close>

text \<open>
  \<^verbatim>\<open>PurgeDB\<close> takes the lock of the data directory, loads the block index, and then
  runs three loops over the index and one over the \<^verbatim>\<open>blocks\<close> directory. Every path
  on which nothing throws ends at the label \<^verbatim>\<open>fail\<close>, which releases the lock and calls
  \<^verbatim>\<open>exit(0)\<close>; the function has no handler, so an exception of \<^verbatim>\<open>remove\<close> in the
  directory loop leaves it without either.

  The model keeps the names of the source. What the function reads from code that is
  not in \<^verbatim>\<open>purge.cpp\<close> is a field of the record \<open>env\<close>; what it changes is a field
  of the record \<open>node\<close>.
\<close>

subsection \<open>Data\<close>

type_synonym uint256 = "256 word"

text \<open>A \<^verbatim>\<open>CBlockIndex*\<close>: an address. \<^verbatim>\<open>set<CBlockIndex*>\<close> orders them as numbers.\<close>

type_synonym ptr = nat

text \<open>
  The fields of \<^verbatim>\<open>CBlockIndex\<close> that \<^verbatim>\<open>PurgeDB\<close> reads or writes. \<^verbatim>\<open>nHeight\<close> and
  \<^verbatim>\<open>nFile\<close> are C \<^verbatim>\<open>int\<close>s, kept as integers; the one place where \<^verbatim>\<open>PurgeDB\<close> computes
  with them, the sum of lines 63 and 74, is \<open>int_add\<close> below. \<^verbatim>\<open>nStatus\<close> is an
  \<^verbatim>\<open>unsigned int\<close> of flags.
\<close>

record CBlockIndex =
  nHeight :: int
  nFile :: int
  nStatus :: "32 word"

text \<open>
  What \<^verbatim>\<open>PurgeDB\<close> does to the world outside its own variables, in the order in which
  it does it: a line of the log (format string and arguments), a call of
  \<^verbatim>\<open>pblocktree->EraseTxIndex\<close>, a call of \<^verbatim>\<open>pblocktree->WriteBlockIndex\<close> (with the
  pointer the \<^verbatim>\<open>CDiskBlockIndex\<close> was built from and the fields it copied), a call
  of \<^verbatim>\<open>remove\<close> on a directory entry, and \<^verbatim>\<open>lock.unlock()\<close>.
\<close>

datatype event =
    LogPrintf string "int list"
  | EraseTxIndex uint256
  | WriteBlockIndex ptr CBlockIndex
  | Remove string
  | Unlock

text \<open>
  The constants of \<^verbatim>\<open>main.h\<close> and the results of the calls into the rest of the node
  and into the libraries; none of them is defined in \<^verbatim>\<open>purge.cpp\<close>, so each is a
  parameter. \<open>ReadBlockFromDisk e pindex\<close> is the value the call returns together with
  the transaction ids of \<^verbatim>\<open>block.vtx\<close> as the call leaves it. \<open>remove_throws e fname\<close> says
  that \<^verbatim>\<open>boost::filesystem::remove\<close> throws for the entry \<open>fname\<close> instead of deleting it.
\<close>

record env =
  MIN_HISTORY :: int
  BLOCK_HAVE_DATA :: "32 word"
  BLOCK_HAVE_UNDO :: "32 word"
  try_lock :: bool
  LoadBlockIndex :: bool
  ActivateBestChain :: bool
  Height :: int
  ReadBlockFromDisk :: "ptr \<Rightarrow> bool \<times> uint256 list"
  exists_pathBlocks :: bool
  remove_throws :: "string \<Rightarrow> bool"

text \<open>
  The state the pass works on: \<^verbatim>\<open>mapBlockIndex\<close> in the order \<^verbatim>\<open>BOOST_FOREACH\<close> visits
  it, the \<^verbatim>\<open>CBlockIndex\<close> objects its pointers lead to, the file names of the entries
  of \<^verbatim>\<open>pathBlocks\<close> in the order the directory iterator yields them, and the events
  so far. The index is taken as \<^verbatim>\<open>LoadBlockIndex\<close> and \<^verbatim>\<open>ActivateBestChain\<close> leave it in
  memory: \<^verbatim>\<open>PurgeDB\<close> itself reads it from line 61 on only.
\<close>

record node =
  mapBlockIndex :: "(uint256 \<times> ptr) list"
  heap :: "ptr \<Rightarrow> CBlockIndex"
  pathBlocks :: "string list"
  trace :: "event list"

definition emit :: "event \<Rightarrow> node \<Rightarrow> node" where
  "emit ev s = s\<lparr>trace := trace s @ [ev]\<rparr>"

subsection \<open>The two classification loops (lines 61 to 82)\<close>

text \<open>The values of a C \<^verbatim>\<open>int\<close> of 32 bits.\<close>

definition int_range :: "int \<Rightarrow> bool" where
  "int_range x = (- 2147483648 \<le> x \<and> x \<le> 2147483647)"

text \<open>
  \<^verbatim>\<open>pindex->nHeight + MIN_HISTORY\<close>: the sum of two \<^verbatim>\<open>int\<close>s as the compiled code
  computes it, in two's complement. Where the sum leaves the range of \<^verbatim>\<open>int\<close> it wraps
  around (C++ leaves the overflow undefined). \<^verbatim>\<open>MIN_HISTORY\<close> is taken to be a constant of
  type \<^verbatim>\<open>int\<close>, as \<^verbatim>\<open>nHeight\<close> and \<^verbatim>\<open>chainActive.Height()\<close> are.
\<close>

definition int_add :: "int \<Rightarrow> int \<Rightarrow> int" where
  "int_add a b = (a + b + 2147483648) mod 4294967296 - 2147483648"

text \<open>
  \<^verbatim>\<open>pindex->nStatus & BLOCK_HAVE_DATA || pindex->nStatus & BLOCK_HAVE_UNDO\<close>
\<close>

definition have_data_or_undo :: "env \<Rightarrow> CBlockIndex \<Rightarrow> bool" where
  "have_data_or_undo e b =
     (nStatus b AND BLOCK_HAVE_DATA e \<noteq> 0 \<or> nStatus b AND BLOCK_HAVE_UNDO e \<noteq> 0)"

text \<open>First pass: the files of the blocks still in view go into \<^verbatim>\<open>setNeed\<close>.\<close>

fun first_pass :: "env \<Rightarrow> (uint256 \<times> ptr) list \<Rightarrow> int set \<Rightarrow> node \<Rightarrow> int set \<times> node" where
  "first_pass e [] setNeed s = (setNeed, s)"
| "first_pass e (item # items) setNeed s =
     (let pindex = snd item in
      if int_add (nHeight (heap s pindex)) (MIN_HISTORY e) \<ge> Height e then
        first_pass e items (insert (nFile (heap s pindex)) setNeed)
          (if have_data_or_undo e (heap s pindex)
           then emit (LogPrintf ''Block cannot be deleted'' []) s else s)
      else first_pass e items setNeed s)"

text \<open>
  Second pass: \<^verbatim>\<open>setDelete\<close>, a \<^verbatim>\<open>set<CBlockIndex*>\<close>, is kept as the ascending list
  of its pointers, the order in which the third loop visits it. The
  \<^verbatim>\<open>LogPrintf("Added to delete")\<close> of line 80 belongs to the outer \<^verbatim>\<open>if\<close> only.
\<close>

fun second_pass :: "env \<Rightarrow> int set \<Rightarrow> (uint256 \<times> ptr) list \<Rightarrow> ptr list \<Rightarrow> node \<Rightarrow> ptr list \<times> node" where
  "second_pass e setNeed [] setDelete s = (setDelete, s)"
| "second_pass e setNeed (item # items) setDelete s =
     (let pindex = snd item in
      if int_add (nHeight (heap s pindex)) (MIN_HISTORY e) < Height e then
        second_pass e setNeed items
          (if have_data_or_undo e (heap s pindex) \<and> nFile (heap s pindex) \<notin> setNeed
           then insort_insert pindex setDelete else setDelete)
          (emit (LogPrintf ''Added to delete'' []) s)
      else second_pass e setNeed items setDelete s)"

subsection \<open>The third loop (lines 85 to 95)\<close>

fun erase_vtx :: "uint256 list \<Rightarrow> node \<Rightarrow> node" where
  "erase_vtx [] s = s"
| "erase_vtx (tx # vtx) s =
     erase_vtx vtx (emit (LogPrintf ''telete tx'' []) (emit (EraseTxIndex tx) s))"

text \<open>\<^verbatim>\<open>pindex->nStatus &= ~(BLOCK_HAVE_DATA | BLOCK_HAVE_UNDO)\<close>\<close>

definition clear_flags :: "env \<Rightarrow> CBlockIndex \<Rightarrow> CBlockIndex" where
  "clear_flags e b = b\<lparr>nStatus := nStatus b AND NOT (BLOCK_HAVE_DATA e OR BLOCK_HAVE_UNDO e)\<rparr>"

text \<open>
  The value \<^verbatim>\<open>ReadBlockFromDisk\<close> returns is not looked at (line 88): the loop goes on
  with whatever the call left in \<^verbatim>\<open>block.vtx\<close>.
\<close>

fun third_pass :: "env \<Rightarrow> ptr list \<Rightarrow> node \<Rightarrow> node" where
  "third_pass e [] s = s"
| "third_pass e (pindex # setDelete) s =
     (let s1 = emit (LogPrintf ''add telete tx'' []) s;
          s2 = erase_vtx (snd (ReadBlockFromDisk e pindex)) s1;
          s3 = s2\<lparr>heap := (heap s2)(pindex := clear_flags e (heap s2 pindex))\<rparr>
      in third_pass e setDelete (emit (WriteBlockIndex pindex (heap s3 pindex)) s3))"

subsection \<open>The directory loop (lines 104 to 120)\<close>

text \<open>
  \<^verbatim>\<open>sscanf(p, "%d.dat", &idx)\<close> of the C library: \<^verbatim>\<open>%d\<close> skips white space, reads an
  optional sign and then decimal digits, and fails when there is no digit. The call
  returns the number of conversions stored, so it returns 1 as soon as \<^verbatim>\<open>%d\<close> has
  succeeded, whether or not \<^verbatim>\<open>.dat\<close> follows. \<open>sscanf_d p\<close> is \<open>Some idx\<close> when the call
  returns 1 and \<open>None\<close> otherwise.
\<close>

definition isspace :: "char \<Rightarrow> bool" where
  "isspace c = (of_char c \<in> {32, 9, 10, 11, 12, 13 :: nat})"

definition isdigit :: "char \<Rightarrow> bool" where
  "isdigit c = (48 \<le> (of_char c :: nat) \<and> (of_char c :: nat) \<le> 57)"

fun decimal :: "int \<Rightarrow> string \<Rightarrow> int" where
  "decimal acc [] = acc"
| "decimal acc (c # cs) = decimal (10 * acc + (of_char c - 48)) cs"

definition sscanf_d :: "string \<Rightarrow> int option" where
  "sscanf_d p =
     (let t = dropWhile isspace p;
          neg = (t \<noteq> [] \<and> hd t = CHR ''-'');
          u = (if t \<noteq> [] \<and> (hd t = CHR ''-'' \<or> hd t = CHR ''+'') then tl t else t);
          ds = takeWhile isdigit u
      in if ds = [] then None
         else Some (if neg then - decimal 0 ds else decimal 0 ds))"

text \<open>
  \<^verbatim>\<open>remove(iter->path())\<close> is \<^verbatim>\<open>boost::filesystem::remove\<close>: either the entry is gone from
  the directory when it returns, or it throws \<^verbatim>\<open>filesystem_error\<close> and the directory is as
  it was.
\<close>

datatype error = filesystem_error string

definition remove_path :: "env \<Rightarrow> string \<Rightarrow> node \<Rightarrow> error + node" where
  "remove_path e fname s =
     (if remove_throws e fname then Inl (filesystem_error fname)
      else Inr (emit (Remove fname) (s\<lparr>pathBlocks := removeAll fname (pathBlocks s)\<rparr>)))"

text \<open>
  The loop walks over the entries the directory had when it started; it removes no
  entry but the one it is at. Nothing in \<^verbatim>\<open>purge.cpp\<close> catches the exception of \<^verbatim>\<open>remove\<close>:
  the loop is left with it at once, and the result is \<open>Inl\<close> of the exception and the
  state at the throw.
\<close>

fun delete_files :: "env \<Rightarrow> int set \<Rightarrow> string list \<Rightarrow> node \<Rightarrow> (error \<times> node) + node" where
  "delete_files e setNeed [] s = Inr s"
| "delete_files e setNeed (fname # entries) s =
     (if length fname \<noteq> 12 then delete_files e setNeed entries s
      else if take 3 fname \<noteq> ''rev'' \<and> take 3 fname \<noteq> ''blk''
      then delete_files e setNeed entries (emit (LogPrintf ''12'' []) s)
      else case sscanf_d (drop 3 fname) of
        None \<Rightarrow>
          delete_files e setNeed entries
            (emit (LogPrintf ''blk'' []) (emit (LogPrintf ''12'' []) s))
      | Some idx \<Rightarrow>
          if idx \<in> setNeed
          then delete_files e setNeed entries
            (emit (LogPrintf ''dat'' []) (emit (LogPrintf ''blk'' []) (emit (LogPrintf ''12'' []) s)))
          else
            (case remove_path e fname
                (emit (LogPrintf ''idx'' [])
                  (emit (LogPrintf ''dat'' []) (emit (LogPrintf ''blk'' []) (emit (LogPrintf ''12'' []) s))))
             of
               Inl err \<Rightarrow>
                 Inl (err,
                   emit (LogPrintf ''idx'' [])
                     (emit (LogPrintf ''dat'' []) (emit (LogPrintf ''blk'' []) (emit (LogPrintf ''12'' []) s))))
             | Inr s' \<Rightarrow> delete_files e setNeed entries s'))"

subsection \<open>PurgeDB\<close>

text \<open>
  The label \<^verbatim>\<open>fail\<close>: \<^verbatim>\<open>lock.unlock(); exit(0);\<close>. \<^verbatim>\<open>PurgeDB\<close> returns nothing and ends the
  process. The model returns, with the final state, \<open>Some\<close> of the argument of \<^verbatim>\<open>exit\<close>, or
  \<open>None\<close> when the exception of \<^verbatim>\<open>remove\<close> leaves \<^verbatim>\<open>PurgeDB\<close>: then the process ends
  without \<^verbatim>\<open>lock.unlock()\<close> and without \<^verbatim>\<open>exit\<close>.
\<close>

definition fail :: "node \<Rightarrow> int option \<times> node" where
  "fail s = (Some 0, emit Unlock s)"

definition PurgeDB :: "env \<Rightarrow> node \<Rightarrow> int option \<times> node" where
  "PurgeDB e s =
     (if \<not> try_lock e then
        fail (emit (LogPrintf ''Cannot obtain a lock on data directory. FeedBackCoin Core is probably already running.'' []) s)
      else
        let s = emit (LogPrintf ''Are you sure you want to purge?!!!!'' []) s;
            s = emit (LogPrintf ''Loading databases'' []) s
        in
        if \<not> LoadBlockIndex e then
          fail (emit (LogPrintf ''Error loading block database'' []) s)
        else if \<not> ActivateBestChain e then
          fail (emit (LogPrintf ''Could not activate best chain'' []) s)
        else
          let s = emit (LogPrintf (''Tip is block %ld'' @ [CHR 0x0A]) [Height e]) s in
          if Height e \<le> MIN_HISTORY e then
            fail (emit (LogPrintf ''Not enough history to prune'' []) s)
          else
            let (setNeed, s) = first_pass e (mapBlockIndex s) {} s;
                (setDelete, s) = second_pass e setNeed (mapBlockIndex s) [] s;
                s = third_pass e setDelete s
            in
            if \<not> exists_pathBlocks e then
              fail (emit (LogPrintf ''Could not open blocks directory'' []) s)
            else
              (case delete_files e setNeed (pathBlocks s) s of
                 Inl (err, s') \<Rightarrow> (None, s')
               | Inr s' \<Rightarrow> fail s'))"

subsection \<open>Notions used to state the properties\<close>

text \<open>The log lines of the five \<^verbatim>\<open>goto fail\<close>.\<close>

definition failure_messages :: "string list" where
  "failure_messages =
     [''Cannot obtain a lock on data directory. FeedBackCoin Core is probably already running.'',
      ''Error loading block database'',
      ''Could not activate best chain'',
      ''Not enough history to prune'',
      ''Could not open blocks directory'']"

fun is_failure_log :: "event \<Rightarrow> bool" where
  "is_failure_log (LogPrintf m args) = (m \<in> set failure_messages)"
| "is_failure_log _ = False"

fun is_log :: "event \<Rightarrow> bool" where
  "is_log (LogPrintf m args) = True"
| "is_log _ = False"

fun is_remove :: "event \<Rightarrow> bool" where
  "is_remove (Remove f) = True"
| "is_remove _ = False"

fun is_index_write :: "event \<Rightarrow> bool" where
  "is_index_write (EraseTxIndex t) = True"
| "is_index_write (WriteBlockIndex p b) = True"
| "is_index_write _ = False"

text \<open>A log line that is none of the five.\<close>

definition progress_log :: "event \<Rightarrow> bool" where
  "progress_log ev = (is_log ev \<and> \<not> is_failure_log ev)"

text \<open>
  What the third loop may do to the index for one block: write its record with the
  flags cleared, and erase the transactions that \<^verbatim>\<open>ReadBlockFromDisk\<close> left in
  \<^verbatim>\<open>block.vtx\<close>.
\<close>

definition block_event :: "env \<Rightarrow> (ptr \<Rightarrow> CBlockIndex) \<Rightarrow> ptr \<Rightarrow> event \<Rightarrow> bool" where
  "block_event e hp pindex ev =
     (ev = WriteBlockIndex pindex (clear_flags e (hp pindex)) \<or>
      (\<exists>tx \<in> set (snd (ReadBlockFromDisk e pindex)). ev = EraseTxIndex tx))"

definition mutator_event :: "env \<Rightarrow> (ptr \<Rightarrow> CBlockIndex) \<Rightarrow> ptr list \<Rightarrow> event \<Rightarrow> bool" where
  "mutator_event e hp setDelete ev =
     (progress_log ev \<or> (\<exists>pindex \<in> set setDelete. block_event e hp pindex ev))"

definition reaper_event :: "event \<Rightarrow> bool" where
  "reaper_event ev = (progress_log ev \<or> is_remove ev)"

text \<open>The condition of line 63; line 74 has its negation.\<close>

definition in_view :: "env \<Rightarrow> CBlockIndex \<Rightarrow> bool" where
  "in_view e b = (int_add (nHeight b) (MIN_HISTORY e) \<ge> Height e)"

text \<open>
  The entry passes the four \<^verbatim>\<open>continue\<close> of the directory loop and reaches \<^verbatim>\<open>remove\<close>.
\<close>

definition reaped :: "int set \<Rightarrow> string \<Rightarrow> bool" where
  "reaped setNeed fname =
     (length fname = 12 \<and> (take 3 fname = ''rev'' \<or> take 3 fname = ''blk'') \<and>
      (case sscanf_d (drop 3 fname) of None \<Rightarrow> False | Some idx \<Rightarrow> idx \<notin> setNeed))"

text \<open>From \<open>s\<close> to \<open>s'\<close> the trace has grown by events that satisfy \<open>P\<close>.\<close>

text \<open>The state in which the directory loop is left, by its end or by the exception.\<close>

fun state_of :: "(error \<times> node) + node \<Rightarrow> node" where
  "state_of (Inl (err, s)) = s"
| "state_of (Inr s) = s"

text \<open>
  The state after the log lines that one turn of the directory loop writes for an
  entry, before the turn ends or calls \<^verbatim>\<open>remove\<close>.
\<close>

definition seen :: "int set \<Rightarrow> string \<Rightarrow> node \<Rightarrow> node" where
  "seen setNeed fname s =
     (if length fname \<noteq> 12 then s
      else if take 3 fname \<noteq> ''rev'' \<and> take 3 fname \<noteq> ''blk''
      then emit (LogPrintf ''12'' []) s
      else case sscanf_d (drop 3 fname) of
        None \<Rightarrow> emit (LogPrintf ''blk'' []) (emit (LogPrintf ''12'' []) s)
      | Some idx \<Rightarrow>
          if idx \<in> setNeed
          then emit (LogPrintf ''dat'' []) (emit (LogPrintf ''blk'' []) (emit (LogPrintf ''12'' []) s))
          else emit (LogPrintf ''idx'' [])
            (emit (LogPrintf ''dat'' []) (emit (LogPrintf ''blk'' []) (emit (LogPrintf ''12'' []) s))))"

text \<open>
  \<open>reaper_run e setNeed entries s r evs\<close>: the directory loop, started in \<open>s\<close> on
  \<open>entries\<close>, is left with \<open>r\<close> after the events \<open>evs\<close>.
\<close>

definition reaper_run ::
  "env \<Rightarrow> int set \<Rightarrow> string list \<Rightarrow> node \<Rightarrow> (error \<times> node) + node \<Rightarrow> event list \<Rightarrow> bool" where
  "reaper_run e setNeed entries s r evs =
     (trace (state_of r) = trace s @ evs \<and>
      heap (state_of r) = heap s \<and>
      mapBlockIndex (state_of r) = mapBlockIndex s \<and>
      pathBlocks (state_of r) = filter (\<lambda>f. Remove f \<notin> set evs) (pathBlocks s) \<and>
      (\<forall>ev \<in> set evs. reaper_event ev) \<and>
      (\<forall>f. Remove f \<in> set evs \<longrightarrow> f \<in> set entries \<and> reaped setNeed f) \<and>
      ((\<exists>s'. r = Inr s') \<longrightarrow> (\<forall>f \<in> set entries. reaped setNeed f \<longrightarrow> Remove f \<in> set evs)) \<and>
      ((\<exists>s'. r = Inr s') \<longleftrightarrow> (\<forall>f \<in> set entries. reaped setNeed f \<longrightarrow> \<not> remove_throws e f)))"

definition appended :: "(event \<Rightarrow> bool) \<Rightarrow> node \<Rightarrow> node \<Rightarrow> bool" where
  "appended P s s' = (\<exists>evs. trace s' = trace s @ evs \<and> (\<forall>ev \<in> set evs. P ev))"

text \<open>
  The values of the local variables \<^verbatim>\<open>setNeed\<close> and \<^verbatim>\<open>setDelete\<close> when the second loop is
  over, for a node \<open>s\<close> on which the loops start.
\<close>

definition setNeed_of :: "env \<Rightarrow> node \<Rightarrow> int set" where
  "setNeed_of e s = fst (first_pass e (mapBlockIndex s) {} s)"

definition setDelete_of :: "env \<Rightarrow> node \<Rightarrow> ptr list" where
  "setDelete_of e s =
     fst (second_pass e (setNeed_of e s) (mapBlockIndex s) []
            (snd (first_pass e (mapBlockIndex s) {} s)))"

text \<open>The four checks of lines 27 to 55, all passed.\<close>

definition passes_checks :: "env \<Rightarrow> bool" where
  "passes_checks e =
     (try_lock e \<and> LoadBlockIndex e \<and> ActivateBestChain e \<and> Height e > MIN_HISTORY e)"

text \<open>The state when the third loop is over.\<close>

definition after_third_pass :: "env \<Rightarrow> node \<Rightarrow> node" where
  "after_third_pass e s =
     (let s0 = emit (LogPrintf (''Tip is block %ld'' @ [CHR 0x0A]) [Height e])
                 (emit (LogPrintf ''Loading databases'' [])
                   (emit (LogPrintf ''Are you sure you want to purge?!!!!'' []) s));
          s1 = snd (first_pass e (mapBlockIndex s) {} s0);
          s2 = snd (second_pass e (setNeed_of e s) (mapBlockIndex s) [] s1)
      in third_pass e (setDelete_of e s) s2)"

text \<open>What the directory loop of a run that got to it is left with.\<close>

definition reaper_result :: "env \<Rightarrow> node \<Rightarrow> (error \<times> node) + node" where
  "reaper_result e s = delete_files e (setNeed_of e s) (pathBlocks s) (after_third_pass e s)"

subsection \<open>A concrete node\<close>

text \<open>
  The scenario of the specification: the tip is at height 5000 and \<^verbatim>\<open>MIN_HISTORY\<close> is
  1000. Block 10 (height 3900) shares file 7 with block 20 (height 4200, in view, no
  data flags); blocks 30 and 40 are old and alone in file 6. The flags have the values
  8 and 16. Reading block 30 from disk fails; no \<^verbatim>\<open>remove\<close> throws.
\<close>

definition e_ex :: env where
  "e_ex = \<lparr>MIN_HISTORY = 1000, BLOCK_HAVE_DATA = 8, BLOCK_HAVE_UNDO = 16, try_lock = True,
     LoadBlockIndex = True, ActivateBestChain = True, Height = 5000,
     ReadBlockFromDisk = (\<lambda>p. if p = 40 then (True, [170, 187]) else (False, [])),
     exists_pathBlocks = True, remove_throws = (\<lambda>fname. False)\<rparr>"

definition s_ex :: node where
  "s_ex = \<lparr>mapBlockIndex = [(1, 10), (2, 20), (3, 30), (4, 40)],
     heap = (\<lambda>p. if p = 10 then \<lparr>nHeight = 3900, nFile = 7, nStatus = 29\<rparr>
               else if p = 20 then \<lparr>nHeight = 4200, nFile = 7, nStatus = 5\<rparr>
               else if p = 30 then \<lparr>nHeight = 3000, nFile = 6, nStatus = 29\<rparr>
               else \<lparr>nHeight = 3100, nFile = 6, nStatus = 13\<rparr>),
     pathBlocks = [''blk00001.dat'', ''blk00006.dat'', ''rev00006.dat'', ''blk00007.dat'',
       ''readme.txt'', ''blk1.dat'', ''blk000000001.dat'', ''blk-0001.dat''],
     trace = []\<rparr>"

text \<open>
  One block at the top of the range of \<^verbatim>\<open>int\<close>, with data and undo, alone in file 3.
\<close>

definition s_top :: node where
  "s_top = \<lparr>mapBlockIndex = [(5, 50)],
     heap = (\<lambda>p. \<lparr>nHeight = 2147483647, nFile = 3, nStatus = 29\<rparr>),
     pathBlocks = [''blk00003.dat''],
     trace = []\<rparr>"

section \<open>The loops, one by one\<close>

lemma int_add_in_range: "int_range (a + b) \<Longrightarrow> int_add a b = a + b"
  by (simp add: int_range_def int_add_def)

lemma int_add_range: "int_range (int_add a b)"
  by (simp add: int_range_def int_add_def)

lemma have_data_or_undo_clear: "\<not> have_data_or_undo e (clear_flags e b)"
  by (auto simp: have_data_or_undo_def clear_flags_def bit_eq_iff bit_simps)

lemma clear_flags_fields [simp]:
  "nHeight (clear_flags e b) = nHeight b" "nFile (clear_flags e b) = nFile b"
  by (simp_all add: clear_flags_def)

lemma clear_flags_idem [simp]: "clear_flags e (clear_flags e b) = clear_flags e b"
  by (simp add: clear_flags_def bit_eq_iff bit_simps)

lemma emit_fields [simp]:
  "heap (emit ev s) = heap s" "mapBlockIndex (emit ev s) = mapBlockIndex s"
  "pathBlocks (emit ev s) = pathBlocks s" "trace (emit ev s) = trace s @ [ev]"
  by (simp_all add: emit_def)

lemma appended_refl: "appended P s s"
  by (simp add: appended_def)

lemma appended_trans: "appended P s s' \<Longrightarrow> appended P s' s'' \<Longrightarrow> appended P s s''"
  by (fastforce simp: appended_def)

lemma appended_emit: "P ev \<Longrightarrow> appended P s (emit ev s)"
  by (simp add: appended_def)

lemma appended_emit_left: "P ev \<Longrightarrow> appended P (emit ev s) s' \<Longrightarrow> appended P s s'"
  by (rule appended_trans [OF appended_emit])

lemma appended_mono: "appended P s s' \<Longrightarrow> (\<And>ev. P ev \<Longrightarrow> Q ev) \<Longrightarrow> appended Q s s'"
  by (fastforce simp: appended_def)

lemma progress_log_simps [simp]:
  "progress_log (LogPrintf ''Block cannot be deleted'' [])"
  "progress_log (LogPrintf ''Added to delete'' [])"
  "progress_log (LogPrintf ''add telete tx'' [])"
  "progress_log (LogPrintf ''telete tx'' [])"
  "progress_log (LogPrintf ''12'' [])"
  "progress_log (LogPrintf ''blk'' [])"
  "progress_log (LogPrintf ''dat'' [])"
  "progress_log (LogPrintf ''idx'' [])"
  "progress_log (LogPrintf ''Are you sure you want to purge?!!!!'' [])"
  "progress_log (LogPrintf ''Loading databases'' [])"
  "progress_log (LogPrintf (''Tip is block %ld'' @ [CHR 0x0A]) args)"
  by (simp_all add: progress_log_def failure_messages_def)

subsection \<open>first pass\<close>

lemma first_pass_fst:
  "fst (first_pass e items setNeed s) =
     setNeed \<union> {nFile (heap s p) | p. p \<in> snd ` set items \<and> in_view e (heap s p)}"
  by (induction items arbitrary: setNeed s) (auto simp: Let_def in_view_def)

lemma first_pass_fields [simp]:
  "heap (snd (first_pass e items setNeed s)) = heap s"
  "mapBlockIndex (snd (first_pass e items setNeed s)) = mapBlockIndex s"
  "pathBlocks (snd (first_pass e items setNeed s)) = pathBlocks s"
  by (induction items arbitrary: setNeed s) (simp_all add: Let_def)

lemma first_pass_trace: "appended progress_log s (snd (first_pass e items setNeed s))"
proof (induction items arbitrary: setNeed s)
  case Nil
  show ?case by (simp add: appended_refl)
next
  case (Cons item items)
  have "appended progress_log s
          (snd (first_pass e items (insert (nFile (heap s (snd item))) setNeed)
                 (emit (LogPrintf ''Block cannot be deleted'' []) s)))"
    by (rule appended_emit_left [OF _ Cons.IH]) simp
  then show ?case
    by (simp add: Let_def Cons.IH)
qed

subsection \<open>second pass\<close>

lemma second_pass_fst:
  "set (fst (second_pass e setNeed items setDelete s)) =
     set setDelete \<union> {p \<in> snd ` set items. \<not> in_view e (heap s p) \<and>
        have_data_or_undo e (heap s p) \<and> nFile (heap s p) \<notin> setNeed}"
  by (induction items arbitrary: setDelete s) (auto simp: Let_def in_view_def set_insort_insert)

lemma second_pass_fields [simp]:
  "heap (snd (second_pass e setNeed items setDelete s)) = heap s"
  "mapBlockIndex (snd (second_pass e setNeed items setDelete s)) = mapBlockIndex s"
  "pathBlocks (snd (second_pass e setNeed items setDelete s)) = pathBlocks s"
  by (induction items arbitrary: setDelete s) (simp_all add: Let_def)

lemma second_pass_trace:
  "appended progress_log s (snd (second_pass e setNeed items setDelete s))"
proof (induction items arbitrary: setDelete s)
  case Nil
  show ?case by (simp add: appended_refl)
next
  case (Cons item items)
  have "appended progress_log s
          (snd (second_pass e setNeed items d (emit (LogPrintf ''Added to delete'' []) s)))" for d
    by (rule appended_emit_left [OF _ Cons.IH]) simp
  then show ?case
    by (simp add: Let_def Cons.IH)
qed

lemma second_pass_sorted:
  "sorted setDelete \<and> distinct setDelete \<Longrightarrow>
   sorted (fst (second_pass e setNeed items setDelete s)) \<and>
   distinct (fst (second_pass e setNeed items setDelete s))"
  by (induction items arbitrary: setDelete s)
     (auto simp: Let_def sorted_insort_insert distinct_insort_insert)

subsection \<open>third pass\<close>

lemma erase_vtx_fields [simp]:
  "heap (erase_vtx vtx s) = heap s"
  "mapBlockIndex (erase_vtx vtx s) = mapBlockIndex s"
  "pathBlocks (erase_vtx vtx s) = pathBlocks s"
  by (induction vtx arbitrary: s) simp_all

lemma erase_vtx_trace:
  "appended (\<lambda>ev. progress_log ev \<or> (\<exists>tx \<in> set vtx. ev = EraseTxIndex tx)) s (erase_vtx vtx s)"
proof (induction vtx arbitrary: s)
  case Nil
  show ?case by (simp add: appended_refl)
next
  case (Cons tx vtx)
  let ?P = "\<lambda>ev. progress_log ev \<or> (\<exists>t \<in> set (tx # vtx). ev = EraseTxIndex t)"
  let ?s' = "emit (LogPrintf ''telete tx'' []) (emit (EraseTxIndex tx) s)"
  have "appended ?P ?s' (erase_vtx vtx ?s')"
    by (rule appended_mono [OF Cons.IH]) auto
  then have "appended ?P (emit (EraseTxIndex tx) s) (erase_vtx vtx ?s')"
    by (rule appended_emit_left [rotated]) simp
  then have "appended ?P s (erase_vtx vtx ?s')"
    by (rule appended_emit_left [rotated]) simp
  then show ?case by simp
qed

lemma third_pass_heap:
  "heap (third_pass e setDelete s) =
     (\<lambda>p. if p \<in> set setDelete then clear_flags e (heap s p) else heap s p)"
  by (induction setDelete arbitrary: s) (auto simp: Let_def fun_eq_iff)

lemma third_pass_fields [simp]:
  "mapBlockIndex (third_pass e setDelete s) = mapBlockIndex s"
  "pathBlocks (third_pass e setDelete s) = pathBlocks s"
  by (induction setDelete arbitrary: s) (simp_all add: Let_def)


lemma third_pass_trace:
  "\<exists>evs. trace (third_pass e setDelete s) = trace s @ evs \<and>
     (\<forall>ev \<in> set evs. mutator_event e (heap s) setDelete ev) \<and>
     (\<forall>p \<in> set setDelete. WriteBlockIndex p (clear_flags e (heap s p)) \<in> set evs)"
proof (induction setDelete arbitrary: s)
  case Nil
  show ?case by simp
next
  case (Cons pindex setDelete)
  let ?s1 = "emit (LogPrintf ''add telete tx'' []) s"
  let ?s2 = "erase_vtx (snd (ReadBlockFromDisk e pindex)) ?s1"
  let ?b = "clear_flags e (heap s pindex)"
  let ?s3 = "?s2\<lparr>heap := (heap s)(pindex := ?b)\<rparr>"
  let ?s4 = "emit (WriteBlockIndex pindex ?b) ?s3"
  let ?M = "mutator_event e (heap s) (pindex # setDelete)"
  have step: "third_pass e (pindex # setDelete) s = third_pass e setDelete ?s4"
    by (simp add: Let_def)
  have same: "clear_flags e (heap ?s4 p) = clear_flags e (heap s p)" for p
    by simp
  obtain evs1 where evs1: "trace ?s2 = trace ?s1 @ evs1"
    "\<forall>ev \<in> set evs1. progress_log ev \<or>
       (\<exists>tx \<in> set (snd (ReadBlockFromDisk e pindex)). ev = EraseTxIndex tx)"
    using erase_vtx_trace [of "snd (ReadBlockFromDisk e pindex)" ?s1]
    unfolding appended_def by blast
  from Cons.IH [of ?s4] obtain evs2 where evs2:
    "trace (third_pass e setDelete ?s4) = trace ?s4 @ evs2"
    "\<forall>ev \<in> set evs2. mutator_event e (heap ?s4) setDelete ev"
    "\<forall>p \<in> set setDelete. WriteBlockIndex p (clear_flags e (heap ?s4 p)) \<in> set evs2"
    by blast
  let ?evs = "LogPrintf ''add telete tx'' [] # evs1 @ WriteBlockIndex pindex ?b # evs2"
  have t: "trace (third_pass e (pindex # setDelete) s) = trace s @ ?evs"
    using evs1(1) evs2(1) by (simp add: step)
  have m1: "\<forall>ev \<in> set evs1. ?M ev"
    using evs1(2) by (auto simp: mutator_event_def block_event_def)
  have m2: "\<forall>ev \<in> set evs2. ?M ev"
    using evs2(2) unfolding mutator_event_def block_event_def same by auto
  have m: "\<forall>ev \<in> set ?evs. ?M ev"
    using m1 m2 by (auto simp: mutator_event_def block_event_def)
  have w: "WriteBlockIndex p (clear_flags e (heap s p)) \<in> set ?evs"
    if "p \<in> set (pindex # setDelete)" for p
  proof (cases "p = pindex")
    case True
    then show ?thesis by simp
  next
    case False
    with that have "p \<in> set setDelete" by simp
    with evs2(3) have "WriteBlockIndex p (clear_flags e (heap ?s4 p)) \<in> set evs2" by blast
    with False show ?thesis by simp
  qed
  show ?case
    using t m w by blast
qed

subsection \<open>directory loop\<close>

lemma seen_fields [simp]:
  "heap (seen setNeed f s) = heap s" "mapBlockIndex (seen setNeed f s) = mapBlockIndex s"
  "pathBlocks (seen setNeed f s) = pathBlocks s"
  by (simp_all add: seen_def split: option.splits)

lemma seen_trace:
  "\<exists>logs. trace (seen setNeed f s) = trace s @ logs \<and> (\<forall>ev \<in> set logs. progress_log ev)"
proof -
  define logs :: "event list" where
    "logs = (if length f \<noteq> 12 then []
       else if take 3 f \<noteq> ''rev'' \<and> take 3 f \<noteq> ''blk'' then [LogPrintf ''12'' []]
       else case sscanf_d (drop 3 f) of
         None \<Rightarrow> [LogPrintf ''12'' [], LogPrintf ''blk'' []]
       | Some idx \<Rightarrow>
           if idx \<in> setNeed then [LogPrintf ''12'' [], LogPrintf ''blk'' [], LogPrintf ''dat'' []]
           else [LogPrintf ''12'' [], LogPrintf ''blk'' [], LogPrintf ''dat'' [], LogPrintf ''idx'' []])"
  have "trace (seen setNeed f s) = trace s @ logs"
    by (simp add: seen_def logs_def split: option.splits)
  moreover have "\<forall>ev \<in> set logs. progress_log ev"
    by (simp add: logs_def split: option.splits)
  ultimately show ?thesis by blast
qed

lemma delete_files_step:
  "delete_files e setNeed (fname # entries) s =
     (if reaped setNeed fname
      then if remove_throws e fname
        then Inl (filesystem_error fname, seen setNeed fname s)
        else delete_files e setNeed entries
          (emit (Remove fname) ((seen setNeed fname s)\<lparr>pathBlocks := removeAll fname (pathBlocks s)\<rparr>))
      else delete_files e setNeed entries (seen setNeed fname s))"
  by (auto simp: reaped_def seen_def remove_path_def split: option.splits)

lemma reaper_run_Nil: "reaper_run e setNeed [] s (Inr s) []"
  by (simp add: reaper_run_def)

lemma reaper_run_skip:
  assumes "\<not> reaped setNeed fname"
    and "trace s1 = trace s @ logs" and "\<forall>ev \<in> set logs. progress_log ev"
    and "heap s1 = heap s" and "mapBlockIndex s1 = mapBlockIndex s"
    and "pathBlocks s1 = pathBlocks s"
    and "reaper_run e setNeed entries s1 r evs"
  shows "reaper_run e setNeed (fname # entries) s r (logs @ evs)"
proof -
  have n: "Remove f \<notin> set logs" for f
    using assms(3) by (auto simp: progress_log_def)
  have l: "\<forall>ev \<in> set logs. reaper_event ev"
    using assms(3) by (simp add: reaper_event_def)
  from assms(7) have r: "trace (state_of r) = trace s1 @ evs" "heap (state_of r) = heap s1"
    "mapBlockIndex (state_of r) = mapBlockIndex s1"
    "pathBlocks (state_of r) = filter (\<lambda>f. Remove f \<notin> set evs) (pathBlocks s1)"
    "\<forall>ev \<in> set evs. reaper_event ev"
    "\<forall>f. Remove f \<in> set evs \<longrightarrow> f \<in> set entries \<and> reaped setNeed f"
    "(\<exists>s'. r = Inr s') \<longrightarrow> (\<forall>f \<in> set entries. reaped setNeed f \<longrightarrow> Remove f \<in> set evs)"
    "(\<exists>s'. r = Inr s') \<longleftrightarrow> (\<forall>f \<in> set entries. reaped setNeed f \<longrightarrow> \<not> remove_throws e f)"
    unfolding reaper_run_def by blast+
  show ?thesis
    unfolding reaper_run_def
  proof (intro conjI)
    show "trace (state_of r) = trace s @ logs @ evs"
      using r(1) assms(2) by simp
    show "heap (state_of r) = heap s"
      using r(2) assms(4) by simp
    show "mapBlockIndex (state_of r) = mapBlockIndex s"
      using r(3) assms(5) by simp
    show "pathBlocks (state_of r) = filter (\<lambda>f. Remove f \<notin> set (logs @ evs)) (pathBlocks s)"
      using r(4) assms(6) n by simp
    show "\<forall>ev \<in> set (logs @ evs). reaper_event ev"
      using l r(5) by auto
    show "\<forall>f. Remove f \<in> set (logs @ evs) \<longrightarrow> f \<in> set (fname # entries) \<and> reaped setNeed f"
      using n r(6) by auto
    show "(\<exists>s'. r = Inr s') \<longrightarrow>
        (\<forall>f \<in> set (fname # entries). reaped setNeed f \<longrightarrow> Remove f \<in> set (logs @ evs))"
      using r(7) assms(1) by auto
    show "(\<exists>s'. r = Inr s') \<longleftrightarrow>
        (\<forall>f \<in> set (fname # entries). reaped setNeed f \<longrightarrow> \<not> remove_throws e f)"
      using r(8) assms(1) by auto
  qed
qed

lemma reaper_run_throw:
  assumes "reaped setNeed fname" and "remove_throws e fname"
    and "trace s1 = trace s @ logs" and "\<forall>ev \<in> set logs. progress_log ev"
    and "heap s1 = heap s" and "mapBlockIndex s1 = mapBlockIndex s"
    and "pathBlocks s1 = pathBlocks s"
  shows "reaper_run e setNeed (fname # entries) s (Inl (err, s1)) logs"
proof -
  have n: "Remove f \<notin> set logs" for f
    using assms(4) by (auto simp: progress_log_def)
  have l: "\<forall>ev \<in> set logs. reaper_event ev"
    using assms(4) by (simp add: reaper_event_def)
  show ?thesis
    unfolding reaper_run_def
  proof (intro conjI)
    show "trace (state_of (Inl (err, s1))) = trace s @ logs"
      using assms(3) by simp
    show "heap (state_of (Inl (err, s1))) = heap s"
      using assms(5) by simp
    show "mapBlockIndex (state_of (Inl (err, s1))) = mapBlockIndex s"
      using assms(6) by simp
    show "pathBlocks (state_of (Inl (err, s1))) = filter (\<lambda>f. Remove f \<notin> set logs) (pathBlocks s)"
      using assms(7) n by simp
    show "\<forall>ev \<in> set logs. reaper_event ev"
      by (rule l)
    show "\<forall>f. Remove f \<in> set logs \<longrightarrow> f \<in> set (fname # entries) \<and> reaped setNeed f"
      using n by simp
    show "(\<exists>s'. Inl (err, s1) = Inr s') \<longrightarrow>
        (\<forall>f \<in> set (fname # entries). reaped setNeed f \<longrightarrow> Remove f \<in> set logs)"
      by simp
    show "(\<exists>s'. Inl (err, s1) = Inr s') \<longleftrightarrow>
        (\<forall>f \<in> set (fname # entries). reaped setNeed f \<longrightarrow> \<not> remove_throws e f)"
      using assms(1,2) by auto
  qed
qed

lemma reaper_run_remove:
  assumes "reaped setNeed fname" and "\<not> remove_throws e fname"
    and "trace s1 = trace s @ logs @ [Remove fname]" and "\<forall>ev \<in> set logs. progress_log ev"
    and "heap s1 = heap s" and "mapBlockIndex s1 = mapBlockIndex s"
    and "pathBlocks s1 = removeAll fname (pathBlocks s)"
    and "reaper_run e setNeed entries s1 r evs"
  shows "reaper_run e setNeed (fname # entries) s r (logs @ Remove fname # evs)"
proof -
  have n: "Remove f \<notin> set logs" for f
    using assms(4) by (auto simp: progress_log_def)
  have l: "\<forall>ev \<in> set (logs @ [Remove fname]). reaper_event ev"
    using assms(4) by (simp add: reaper_event_def)
  have p: "filter (\<lambda>f. Remove f \<notin> set evs) (removeAll fname (pathBlocks s)) =
      filter (\<lambda>f. Remove f \<notin> set (logs @ Remove fname # evs)) (pathBlocks s)"
    using n by (auto simp: removeAll_filter_not_eq intro: filter_cong)
  from assms(8) have r: "trace (state_of r) = trace s1 @ evs" "heap (state_of r) = heap s1"
    "mapBlockIndex (state_of r) = mapBlockIndex s1"
    "pathBlocks (state_of r) = filter (\<lambda>f. Remove f \<notin> set evs) (pathBlocks s1)"
    "\<forall>ev \<in> set evs. reaper_event ev"
    "\<forall>f. Remove f \<in> set evs \<longrightarrow> f \<in> set entries \<and> reaped setNeed f"
    "(\<exists>s'. r = Inr s') \<longrightarrow> (\<forall>f \<in> set entries. reaped setNeed f \<longrightarrow> Remove f \<in> set evs)"
    "(\<exists>s'. r = Inr s') \<longleftrightarrow> (\<forall>f \<in> set entries. reaped setNeed f \<longrightarrow> \<not> remove_throws e f)"
    unfolding reaper_run_def by blast+
  show ?thesis
    unfolding reaper_run_def
  proof (intro conjI)
    show "trace (state_of r) = trace s @ logs @ Remove fname # evs"
      using r(1) assms(3) by simp
    show "heap (state_of r) = heap s"
      using r(2) assms(5) by simp
    show "mapBlockIndex (state_of r) = mapBlockIndex s"
      using r(3) assms(6) by simp
    show "pathBlocks (state_of r) =
        filter (\<lambda>f. Remove f \<notin> set (logs @ Remove fname # evs)) (pathBlocks s)"
      using r(4) assms(7) p by simp
    show "\<forall>ev \<in> set (logs @ Remove fname # evs). reaper_event ev"
      using l r(5) by auto
    show "\<forall>f. Remove f \<in> set (logs @ Remove fname # evs) \<longrightarrow>
        f \<in> set (fname # entries) \<and> reaped setNeed f"
      using n r(6) assms(1) by auto
    show "(\<exists>s'. r = Inr s') \<longrightarrow>
        (\<forall>f \<in> set (fname # entries). reaped setNeed f \<longrightarrow> Remove f \<in> set (logs @ Remove fname # evs))"
      using r(7) by auto
    show "(\<exists>s'. r = Inr s') \<longleftrightarrow>
        (\<forall>f \<in> set (fname # entries). reaped setNeed f \<longrightarrow> \<not> remove_throws e f)"
      using r(8) assms(2) by auto
  qed
qed

lemma delete_files_run:
  "\<exists>evs. reaper_run e setNeed entries s (delete_files e setNeed entries s) evs"
proof (induction entries arbitrary: s)
  case Nil
  show ?case
    using reaper_run_Nil by auto
next
  case (Cons fname entries)
  let ?s1 = "seen setNeed fname s"
  obtain logs where logs: "trace ?s1 = trace s @ logs" "\<forall>ev \<in> set logs. progress_log ev"
    using seen_trace by blast
  show ?case
  proof (cases "reaped setNeed fname")
    case False
    from Cons.IH [of ?s1] obtain evs where
      "reaper_run e setNeed entries ?s1 (delete_files e setNeed entries ?s1) evs" ..
    with False logs have "reaper_run e setNeed (fname # entries) s
        (delete_files e setNeed entries ?s1) (logs @ evs)"
      by (intro reaper_run_skip) simp_all
    with False show ?thesis
      unfolding delete_files_step by auto
  next
    case True
    show ?thesis
    proof (cases "remove_throws e fname")
      case throws: True
      with True logs have "reaper_run e setNeed (fname # entries) s
          (Inl (filesystem_error fname, ?s1)) logs"
        by (intro reaper_run_throw) simp_all
      with True throws show ?thesis
        unfolding delete_files_step by auto
    next
      case returns: False
      let ?s2 = "emit (Remove fname) (?s1\<lparr>pathBlocks := removeAll fname (pathBlocks s)\<rparr>)"
      from Cons.IH [of ?s2] obtain evs where
        "reaper_run e setNeed entries ?s2 (delete_files e setNeed entries ?s2) evs" ..
      with True returns logs have "reaper_run e setNeed (fname # entries) s
          (delete_files e setNeed entries ?s2) (logs @ Remove fname # evs)"
        by (intro reaper_run_remove) simp_all
      with True returns show ?thesis
        unfolding delete_files_step by auto
    qed
  qed
qed

section \<open>PurgeDB as a whole\<close>

lemma setNeed_of_eq:
  "setNeed_of e s =
     {nFile (heap s p) | p. p \<in> snd ` set (mapBlockIndex s) \<and> in_view e (heap s p)}"
  by (simp add: setNeed_of_def first_pass_fst)

lemma setDelete_of_set:
  "set (setDelete_of e s) =
     {p \<in> snd ` set (mapBlockIndex s). \<not> in_view e (heap s p) \<and>
        have_data_or_undo e (heap s p) \<and> nFile (heap s p) \<notin> setNeed_of e s}"
  by (simp add: setDelete_of_def second_pass_fst)

lemma first_pass_fst_heap:
  "heap s' = heap s \<Longrightarrow>
   fst (first_pass e items setNeed s') = fst (first_pass e items setNeed s)"
  by (simp add: first_pass_fst)

lemma second_pass_fst_heap:
  "heap s' = heap s \<Longrightarrow>
   fst (second_pass e setNeed items setDelete s') = fst (second_pass e setNeed items setDelete s)"
proof (induction items arbitrary: setDelete s s')
  case Nil
  show ?case by simp
next
  case (Cons item items)
  let ?ev = "LogPrintf ''Added to delete'' []"
  have "heap (emit ?ev s') = heap (emit ?ev s)"
    using Cons.prems by simp
  from Cons.IH [OF this] Cons.IH [OF Cons.prems] show ?case
    by (simp add: Let_def Cons.prems)
qed

lemma PurgeDB_no_lock:
  "\<not> try_lock e \<Longrightarrow>
   PurgeDB e s = (Some 0, s\<lparr>trace := trace s @
     [LogPrintf ''Cannot obtain a lock on data directory. FeedBackCoin Core is probably already running.'' [],
      Unlock]\<rparr>)"
  by (simp add: PurgeDB_def fail_def emit_def)

lemma PurgeDB_no_index:
  "try_lock e \<Longrightarrow> \<not> LoadBlockIndex e \<Longrightarrow>
   PurgeDB e s = (Some 0, s\<lparr>trace := trace s @
     [LogPrintf ''Are you sure you want to purge?!!!!'' [], LogPrintf ''Loading databases'' [],
      LogPrintf ''Error loading block database'' [], Unlock]\<rparr>)"
  by (simp add: PurgeDB_def fail_def emit_def)

lemma PurgeDB_no_chain:
  "try_lock e \<Longrightarrow> LoadBlockIndex e \<Longrightarrow> \<not> ActivateBestChain e \<Longrightarrow>
   PurgeDB e s = (Some 0, s\<lparr>trace := trace s @
     [LogPrintf ''Are you sure you want to purge?!!!!'' [], LogPrintf ''Loading databases'' [],
      LogPrintf ''Could not activate best chain'' [], Unlock]\<rparr>)"
  by (simp add: PurgeDB_def fail_def emit_def)

lemma PurgeDB_no_history:
  "try_lock e \<Longrightarrow> LoadBlockIndex e \<Longrightarrow> ActivateBestChain e \<Longrightarrow> Height e \<le> MIN_HISTORY e \<Longrightarrow>
   PurgeDB e s = (Some 0, s\<lparr>trace := trace s @
     [LogPrintf ''Are you sure you want to purge?!!!!'' [], LogPrintf ''Loading databases'' [],
      LogPrintf (''Tip is block %ld'' @ [CHR 0x0A]) [Height e],
      LogPrintf ''Not enough history to prune'' [], Unlock]\<rparr>)"
  by (simp add: PurgeDB_def fail_def emit_def)

lemma PurgeDB_passes:
  assumes "passes_checks e"
  shows "PurgeDB e s =
     (if exists_pathBlocks e
      then case delete_files e (setNeed_of e s) (pathBlocks s) (after_third_pass e s) of
          Inl (err, s') \<Rightarrow> (None, s')
        | Inr s' \<Rightarrow> fail s'
      else fail (emit (LogPrintf ''Could not open blocks directory'' []) (after_third_pass e s)))"
proof -
  let ?s0 = "emit (LogPrintf (''Tip is block %ld'' @ [CHR 0x0A]) [Height e])
                 (emit (LogPrintf ''Loading databases'' [])
                   (emit (LogPrintf ''Are you sure you want to purge?!!!!'' []) s))"
  have n: "fst (first_pass e (mapBlockIndex s) {} ?s0) = setNeed_of e s"
    unfolding setNeed_of_def by (rule first_pass_fst_heap) simp
  have d: "fst (second_pass e (setNeed_of e s) (mapBlockIndex s) []
              (snd (first_pass e (mapBlockIndex s) {} ?s0))) = setDelete_of e s"
    unfolding setDelete_of_def by (rule second_pass_fst_heap) simp
  show ?thesis
    using assms n d
    by (simp add: PurgeDB_def passes_checks_def after_third_pass_def Let_def split_beta)
qed

lemma after_third_pass_fields:
  "heap (after_third_pass e s) =
     (\<lambda>p. if p \<in> set (setDelete_of e s) then clear_flags e (heap s p) else heap s p)"
  "mapBlockIndex (after_third_pass e s) = mapBlockIndex s"
  "pathBlocks (after_third_pass e s) = pathBlocks s"
  by (simp_all add: after_third_pass_def Let_def third_pass_heap cong: if_cong)

lemma after_third_pass_trace:
  "\<exists>evs. trace (after_third_pass e s) = trace s @ evs \<and>
     (\<forall>ev \<in> set evs. mutator_event e (heap s) (setDelete_of e s) ev) \<and>
     (\<forall>p \<in> set (setDelete_of e s). WriteBlockIndex p (clear_flags e (heap s p)) \<in> set evs)"
proof -
  let ?s0 = "emit (LogPrintf (''Tip is block %ld'' @ [CHR 0x0A]) [Height e])
                 (emit (LogPrintf ''Loading databases'' [])
                   (emit (LogPrintf ''Are you sure you want to purge?!!!!'' []) s))"
  let ?s1 = "snd (first_pass e (mapBlockIndex s) {} ?s0)"
  let ?s2 = "snd (second_pass e (setNeed_of e s) (mapBlockIndex s) [] ?s1)"
  have "appended progress_log s ?s0"
    by (intro appended_emit_left [OF _ appended_emit_left [OF _ appended_emit]])
       (simp_all add: progress_log_def failure_messages_def)
  then have "appended progress_log s ?s2"
    by (blast intro: appended_trans first_pass_trace second_pass_trace)
  then obtain evs1 where evs1: "trace ?s2 = trace s @ evs1"
    "\<forall>ev \<in> set evs1. mutator_event e (heap s) (setDelete_of e s) ev"
    unfolding appended_def mutator_event_def by blast
  obtain evs2 where evs2: "trace (third_pass e (setDelete_of e s) ?s2) = trace ?s2 @ evs2"
    "\<forall>ev \<in> set evs2. mutator_event e (heap ?s2) (setDelete_of e s) ev"
    "\<forall>p \<in> set (setDelete_of e s). WriteBlockIndex p (clear_flags e (heap ?s2 p)) \<in> set evs2"
    using third_pass_trace [of e "setDelete_of e s" ?s2] by blast
  have "trace (after_third_pass e s) = trace s @ (evs1 @ evs2)"
    using evs1(1) evs2(1) by (simp add: after_third_pass_def Let_def)
  moreover have "\<forall>ev \<in> set (evs1 @ evs2). mutator_event e (heap s) (setDelete_of e s) ev"
    using evs1(2) evs2(2) by auto
  moreover have "\<forall>p \<in> set (setDelete_of e s).
      WriteBlockIndex p (clear_flags e (heap s p)) \<in> set (evs1 @ evs2)"
    using evs2(3) by simp
  ultimately show ?thesis by blast
qed


lemma PurgeDB_abort:
  assumes "\<not> passes_checks e"
  shows "\<exists>logs. PurgeDB e s = (Some 0, s\<lparr>trace := trace s @ logs @ [Unlock]\<rparr>) \<and> logs \<noteq> [] \<and>
     (\<forall>ev \<in> set (butlast logs). progress_log ev) \<and> is_failure_log (last logs)"
proof -
  consider "\<not> try_lock e" | "try_lock e" "\<not> LoadBlockIndex e"
    | "try_lock e" "LoadBlockIndex e" "\<not> ActivateBestChain e"
    | "try_lock e" "LoadBlockIndex e" "ActivateBestChain e" "Height e \<le> MIN_HISTORY e"
    using assms unfolding passes_checks_def by fastforce
  then show ?thesis
  proof cases
    case 1
    show ?thesis
      by (rule exI [of _ "[LogPrintf ''Cannot obtain a lock on data directory. FeedBackCoin Core is probably already running.'' []]"])
         (simp add: PurgeDB_no_lock [OF 1] failure_messages_def)
  next
    case 2
    show ?thesis
      by (rule exI [of _ "[LogPrintf ''Are you sure you want to purge?!!!!'' [],
            LogPrintf ''Loading databases'' [], LogPrintf ''Error loading block database'' []]"])
         (simp add: PurgeDB_no_index [OF 2] failure_messages_def)
  next
    case 3
    show ?thesis
      by (rule exI [of _ "[LogPrintf ''Are you sure you want to purge?!!!!'' [],
            LogPrintf ''Loading databases'' [], LogPrintf ''Could not activate best chain'' []]"])
         (simp add: PurgeDB_no_chain [OF 3] failure_messages_def)
  next
    case 4
    show ?thesis
      by (rule exI [of _ "[LogPrintf ''Are you sure you want to purge?!!!!'' [],
            LogPrintf ''Loading databases'' [],
            LogPrintf (''Tip is block %ld'' @ [CHR 0x0A]) [Height e],
            LogPrintf ''Not enough history to prune'' []]"])
         (simp add: PurgeDB_no_history [OF 4] failure_messages_def progress_log_def)
  qed
qed

text \<open>A run that has passed the four checks.\<close>

lemma PurgeDB_result:
  assumes "passes_checks e"
  shows "PurgeDB e s =
      (if \<not> exists_pathBlocks e
       then (Some 0, emit Unlock
          (emit (LogPrintf ''Could not open blocks directory'' []) (after_third_pass e s)))
       else if \<exists>s'. reaper_result e s = Inr s'
       then (Some 0, emit Unlock (state_of (reaper_result e s)))
       else (None, state_of (reaper_result e s)))"
proof (cases "reaper_result e s")
  case (Inl a)
  obtain err s' where "a = (err, s')"
    by (cases a)
  with Inl show ?thesis
    unfolding reaper_result_def by (simp add: PurgeDB_passes [OF assms] fail_def)
next
  case (Inr b)
  then show ?thesis
    unfolding reaper_result_def by (simp add: PurgeDB_passes [OF assms] fail_def)
qed

lemma reaper_result_run:
  "\<exists>post. trace (state_of (reaper_result e s)) = trace (after_third_pass e s) @ post \<and>
     heap (state_of (reaper_result e s)) = heap (after_third_pass e s) \<and>
     mapBlockIndex (state_of (reaper_result e s)) = mapBlockIndex s \<and>
     pathBlocks (state_of (reaper_result e s)) =
       filter (\<lambda>f. Remove f \<notin> set post) (pathBlocks s) \<and>
     (\<forall>ev \<in> set post. reaper_event ev) \<and>
     (\<forall>f. Remove f \<in> set post \<longrightarrow> f \<in> set (pathBlocks s) \<and> reaped (setNeed_of e s) f) \<and>
     ((\<exists>s'. reaper_result e s = Inr s') \<longrightarrow>
        (\<forall>f \<in> set (pathBlocks s). reaped (setNeed_of e s) f \<longrightarrow> Remove f \<in> set post)) \<and>
     ((\<exists>s'. reaper_result e s = Inr s') \<longleftrightarrow>
        (\<forall>f \<in> set (pathBlocks s). reaped (setNeed_of e s) f \<longrightarrow> \<not> remove_throws e f))"
proof -
  from delete_files_run [of e "setNeed_of e s" "pathBlocks s" "after_third_pass e s"]
  obtain post where "reaper_run e (setNeed_of e s) (pathBlocks s) (after_third_pass e s)
      (reaper_result e s) post"
    unfolding reaper_result_def ..
  then show ?thesis
    unfolding reaper_run_def after_third_pass_fields(2,3) by (intro exI [of _ post])
qed


lemma PurgeDB_run_heap:
  assumes "passes_checks e"
  shows "heap (snd (PurgeDB e s)) =
      (\<lambda>p. if p \<in> set (setDelete_of e s) then clear_flags e (heap s p) else heap s p)"
proof -
  obtain post where "heap (state_of (reaper_result e s)) = heap (after_third_pass e s)"
    using reaper_result_run [of e s] by blast
  then have "heap (snd (PurgeDB e s)) = heap (after_third_pass e s)"
    unfolding PurgeDB_result [OF assms] by simp
  then show ?thesis
    by (simp only: after_third_pass_fields(1))
qed

lemma PurgeDB_run_map:
  assumes "passes_checks e"
  shows "mapBlockIndex (snd (PurgeDB e s)) = mapBlockIndex s"
proof -
  obtain post where "mapBlockIndex (state_of (reaper_result e s)) = mapBlockIndex s"
    using reaper_result_run [of e s] by blast
  then show ?thesis
    unfolding PurgeDB_result [OF assms] by (simp add: after_third_pass_fields(2))
qed

lemma PurgeDB_run_status:
  assumes "passes_checks e"
  shows "fst (PurgeDB e s) = Some 0 \<or> fst (PurgeDB e s) = None"
  unfolding PurgeDB_result [OF assms] by simp

lemma PurgeDB_run_trace:
  assumes "passes_checks e"
  shows "\<exists>pre post. trace (snd (PurgeDB e s)) =
        trace s @ pre @ post @ (if fst (PurgeDB e s) = None then [] else [Unlock]) \<and>
      (\<forall>ev \<in> set pre. mutator_event e (heap s) (setDelete_of e s) ev) \<and>
      (\<forall>p \<in> set (setDelete_of e s). WriteBlockIndex p (clear_flags e (heap s p)) \<in> set pre) \<and>
      (if exists_pathBlocks e
       then (\<forall>ev \<in> set post. reaper_event ev) \<and>
            pathBlocks (snd (PurgeDB e s)) = filter (\<lambda>f. Remove f \<notin> set post) (pathBlocks s) \<and>
            (\<forall>f. Remove f \<in> set post \<longrightarrow> f \<in> set (pathBlocks s) \<and> reaped (setNeed_of e s) f) \<and>
            (fst (PurgeDB e s) = Some 0 \<longrightarrow>
               (\<forall>f \<in> set (pathBlocks s). reaped (setNeed_of e s) f \<longrightarrow> Remove f \<in> set post)) \<and>
            (fst (PurgeDB e s) = Some 0 \<longleftrightarrow>
               (\<forall>f \<in> set (pathBlocks s). reaped (setNeed_of e s) f \<longrightarrow> \<not> remove_throws e f))
       else post = [LogPrintf ''Could not open blocks directory'' []] \<and>
            fst (PurgeDB e s) = Some 0 \<and>
            pathBlocks (snd (PurgeDB e s)) = pathBlocks s)"
proof -
  let ?a = "after_third_pass e s"
  let ?r = "reaper_result e s"
  obtain pre where pre: "trace ?a = trace s @ pre"
    "\<forall>ev \<in> set pre. mutator_event e (heap s) (setDelete_of e s) ev"
    "\<forall>p \<in> set (setDelete_of e s). WriteBlockIndex p (clear_flags e (heap s p)) \<in> set pre"
    using after_third_pass_trace [of e s] by blast
  obtain post where r: "trace (state_of ?r) = trace ?a @ post"
    "pathBlocks (state_of ?r) = filter (\<lambda>f. Remove f \<notin> set post) (pathBlocks s)"
    "\<forall>ev \<in> set post. reaper_event ev"
    "\<forall>f. Remove f \<in> set post \<longrightarrow> f \<in> set (pathBlocks s) \<and> reaped (setNeed_of e s) f"
    "(\<exists>s'. ?r = Inr s') \<longrightarrow>
       (\<forall>f \<in> set (pathBlocks s). reaped (setNeed_of e s) f \<longrightarrow> Remove f \<in> set post)"
    "(\<exists>s'. ?r = Inr s') \<longleftrightarrow>
       (\<forall>f \<in> set (pathBlocks s). reaped (setNeed_of e s) f \<longrightarrow> \<not> remove_throws e f)"
    using reaper_result_run [of e s] by blast
  consider (nodir) "\<not> exists_pathBlocks e"
    | (ended) "exists_pathBlocks e" "\<exists>s'. ?r = Inr s'"
    | (thrown) "exists_pathBlocks e" "\<not> (\<exists>s'. ?r = Inr s')"
    by blast
  then show ?thesis
  proof cases
    case nodir
    then have eq: "PurgeDB e s = (Some 0, emit Unlock
        (emit (LogPrintf ''Could not open blocks directory'' []) ?a))"
      by (simp add: PurgeDB_result [OF assms])
    have 1: "fst (PurgeDB e s) = Some 0"
      and 2: "trace (snd (PurgeDB e s)) =
        trace s @ pre @ [LogPrintf ''Could not open blocks directory'' []] @ [Unlock]"
      and 3: "pathBlocks (snd (PurgeDB e s)) = pathBlocks s"
      unfolding eq using pre(1) by (simp_all add: after_third_pass_fields(3))
    show ?thesis
      apply (rule exI [of _ pre])
      apply (rule exI [of _ "[LogPrintf ''Could not open blocks directory'' []]"])
      apply (simp only: 1 2 3 nodir if_True if_False option.simps simp_thms append_Nil2)
      using pre(2,3) apply blast
      done
  next
    case ended
    then have eq: "PurgeDB e s = (Some 0, emit Unlock (state_of ?r))"
      by (simp add: PurgeDB_result [OF assms])
    have 1: "fst (PurgeDB e s) = Some 0"
      and 2: "trace (snd (PurgeDB e s)) = trace s @ pre @ post @ [Unlock]"
      and 3: "pathBlocks (snd (PurgeDB e s)) = filter (\<lambda>f. Remove f \<notin> set post) (pathBlocks s)"
      unfolding eq using pre(1) r(1,2) by simp_all
    from ended(2) r(5,6) have 4:
      "\<forall>f \<in> set (pathBlocks s). reaped (setNeed_of e s) f \<longrightarrow> Remove f \<in> set post"
      "\<forall>f \<in> set (pathBlocks s). reaped (setNeed_of e s) f \<longrightarrow> \<not> remove_throws e f"
      by blast+
    show ?thesis
      apply (rule exI [of _ pre])
      apply (rule exI [of _ post])
      apply (simp only: 1 2 3 ended(1) if_True if_False option.simps simp_thms append_Nil2)
      using pre(2,3) r(3,4) 4 apply blast
      done
  next
    case thrown
    then have eq: "PurgeDB e s = (None, state_of ?r)"
      by (simp add: PurgeDB_result [OF assms])
    have 1: "fst (PurgeDB e s) = None"
      and 2: "trace (snd (PurgeDB e s)) = trace s @ pre @ post @ []"
      and 3: "pathBlocks (snd (PurgeDB e s)) = filter (\<lambda>f. Remove f \<notin> set post) (pathBlocks s)"
      unfolding eq using pre(1) r(1,2) by simp_all
    from thrown(2) r(6) have 4:
      "\<not> (\<forall>f \<in> set (pathBlocks s). reaped (setNeed_of e s) f \<longrightarrow> \<not> remove_throws e f)"
      by blast
    show ?thesis
      apply (rule exI [of _ pre])
      apply (rule exI [of _ post])
      apply (simp only: 1 2 3 thrown(1) if_True if_False option.simps simp_thms append_Nil2)
      using pre(2,3) r(3,4) 4 apply blast
      done
  qed
qed

subsection \<open>What the index parse accepts\<close>

lemma isdigit_not_space: "isdigit c \<Longrightarrow> \<not> isspace c"
  by (auto simp: isdigit_def isspace_def)

lemma isdigit_not_sign: "isdigit c \<Longrightarrow> c \<noteq> CHR ''-'' \<and> c \<noteq> CHR ''+''"
  by (auto simp: isdigit_def)

lemma takeWhile_isdigit_dat:
  "list_all isdigit ds \<Longrightarrow> takeWhile isdigit (ds @ ''.dat'') = ds"
  by (induction ds) (simp_all add: isdigit_def)

lemma sscanf_d_digits:
  assumes "ds \<noteq> []" and "list_all isdigit ds"
  shows "sscanf_d (ds @ ''.dat'') = Some (decimal 0 ds)"
proof -
  from assms obtain c cs where ds: "ds = c # cs" "isdigit c"
    by (cases ds) auto
  have "dropWhile isspace (ds @ ''.dat'') = ds @ ''.dat''"
    using ds by (simp add: isdigit_not_space)
  moreover have "hd (ds @ ''.dat'') \<noteq> CHR ''-''" "hd (ds @ ''.dat'') \<noteq> CHR ''+''"
    using ds isdigit_not_sign [of c] by simp_all
  ultimately show ?thesis
    using assms by (simp add: sscanf_d_def Let_def takeWhile_isdigit_dat)
qed

lemma sscanf_d_lax:
  assumes "list_all isspace ws" and "sg = [] \<or> sg = ''+'' \<or> sg = ''-''"
    and "ds \<noteq> []" and "list_all isdigit ds"
  shows "sscanf_d (ws @ sg @ ds @ ''.dat'') =
     Some (if sg = ''-'' then - decimal 0 ds else decimal 0 ds)"
proof -
  from assms(3,4) obtain c cs where ds: "ds = c # cs" "isdigit c"
    by (cases ds) auto
  have sp: "\<not> isspace CHR ''-''" "\<not> isspace CHR ''+''" "\<not> isspace c"
    using isdigit_not_space [OF ds(2)] by (simp_all add: isspace_def)
  have "dropWhile isspace (ws @ sg @ ds @ ''.dat'') = sg @ ds @ ''.dat''"
    using assms(1,2) sp ds(1) by (auto simp: list_all_iff dropWhile_append2)
  then show ?thesis
    using assms(2-4) ds isdigit_not_sign [of c]
    by (auto simp: sscanf_d_def Let_def takeWhile_isdigit_dat)
qed

lemma isdigit_value: "isdigit c \<Longrightarrow> 0 \<le> (of_char c :: int) - 48 \<and> (of_char c :: int) - 48 \<le> 9"
proof -
  assume "isdigit c"
  then have "48 \<le> (of_char c :: nat)" "(of_char c :: nat) \<le> 57"
    by (simp_all add: isdigit_def)
  then have "48 \<le> int (of_char c)" "int (of_char c) \<le> 57"
    by linarith+
  then show ?thesis
    by (simp add: of_char_def)
qed

lemma decimal_bounds:
  "list_all isdigit ds \<Longrightarrow> 0 \<le> acc \<Longrightarrow>
   0 \<le> decimal acc ds \<and> decimal acc ds < (acc + 1) * 10 ^ length ds"
proof (induction ds arbitrary: acc)
  case Nil
  then show ?case by simp
next
  case (Cons c cs)
  let ?d = "(of_char c :: int) - 48"
  from Cons.prems have d: "0 \<le> ?d" "?d \<le> 9" and cs: "list_all isdigit cs"
    using isdigit_value [of c] by simp_all
  from d Cons.prems(2) have "0 \<le> 10 * acc + ?d"
    by linarith
  from Cons.IH [OF cs this]
  have 1: "0 \<le> decimal (10 * acc + ?d) cs"
    and 2: "decimal (10 * acc + ?d) cs < (10 * acc + ?d + 1) * 10 ^ length cs"
    by simp_all
  have "(10 * acc + ?d + 1) * 10 ^ length cs \<le> (10 * acc + 10) * 10 ^ length cs"
    using d(2) by (intro mult_right_mono) simp_all
  also have "\<dots> = (acc + 1) * 10 ^ length (c # cs)"
    by (simp add: algebra_simps)
  finally have 3: "(10 * acc + ?d + 1) * 10 ^ length cs \<le> (acc + 1) * 10 ^ length (c # cs)" .
  have e: "decimal acc (c # cs) = decimal (10 * acc + ?d) cs"
    by simp
  show ?case
    unfolding e using 1 2 3 by linarith
qed

text \<open>
  The index read from a name of 12 characters fits a C \<^verbatim>\<open>int\<close>, so \<^verbatim>\<open>%d\<close> never
  overflows in the directory loop.
\<close>

lemma sscanf_d_fits_int:
  assumes "length fname = 12" and "sscanf_d (drop 3 fname) = Some idx"
  shows "- (2 ^ 31) < idx \<and> idx < 2 ^ 31"
proof -
  define t where "t = dropWhile isspace (drop 3 fname)"
  define u where "u = (if t \<noteq> [] \<and> (hd t = CHR ''-'' \<or> hd t = CHR ''+'') then tl t else t)"
  define ds where "ds = takeWhile isdigit u"
  have "length t \<le> length (drop 3 fname)"
    unfolding t_def by (rule length_dropWhile_le)
  moreover have "length u \<le> length t"
    by (simp add: u_def)
  moreover have "length ds \<le> length u"
    unfolding ds_def by (rule length_takeWhile_le)
  ultimately have len: "length ds \<le> 9"
    using assms(1) by simp
  have "list_all isdigit ds"
    unfolding ds_def list_all_iff by (auto dest: set_takeWhileD)
  from decimal_bounds [OF this, of 0]
  have "0 \<le> decimal 0 ds" "decimal 0 ds < 10 ^ length ds"
    by simp_all
  moreover have "(10 :: int) ^ length ds \<le> 10 ^ 9"
    using len by (intro power_increasing) simp_all
  ultimately have b: "0 \<le> decimal 0 ds" "decimal 0 ds < 10 ^ 9"
    by linarith+
  from assms(2) have "idx = decimal 0 ds \<or> idx = - decimal 0 ds"
    unfolding sscanf_d_def Let_def t_def [symmetric] u_def [symmetric] ds_def [symmetric]
    by (auto split: if_splits)
  with b show ?thesis
    by auto
qed

subsection \<open>Kinds of events\<close>

lemma progress_log_facts:
  "progress_log ev \<Longrightarrow> is_log ev"
  "progress_log ev \<Longrightarrow> \<not> is_failure_log ev"
  "progress_log ev \<Longrightarrow> \<not> is_remove ev"
  "progress_log ev \<Longrightarrow> \<not> is_index_write ev"
  "progress_log ev \<Longrightarrow> ev \<noteq> Unlock"
  by (cases ev; simp add: progress_log_def)+

lemma mutator_event_facts:
  "mutator_event e hp setDelete ev \<Longrightarrow> \<not> is_remove ev"
  "mutator_event e hp setDelete ev \<Longrightarrow> \<not> is_failure_log ev"
  "mutator_event e hp [] ev \<Longrightarrow> \<not> is_index_write ev"
  by (auto simp: mutator_event_def block_event_def dest: progress_log_facts)

lemma reaper_event_facts:
  "reaper_event ev \<Longrightarrow> \<not> is_index_write ev"
  "reaper_event ev \<Longrightarrow> \<not> is_failure_log ev"
  by (cases ev; auto simp: reaper_event_def dest: progress_log_facts)+

lemma failure_log_facts:
  "is_failure_log ev \<Longrightarrow> is_log ev"
  "is_failure_log ev \<Longrightarrow> \<not> is_remove ev"
  "is_failure_log ev \<Longrightarrow> \<not> is_index_write ev"
  by (cases ev; simp)+

lemma PurgeDB_abort_logs:
  assumes "\<not> passes_checks e"
  shows "\<exists>logs. PurgeDB e s = (Some 0, s\<lparr>trace := trace s @ logs @ [Unlock]\<rparr>) \<and>
     (\<forall>ev \<in> set logs. is_log ev \<and> \<not> is_remove ev \<and> \<not> is_index_write ev)"
proof -
  from PurgeDB_abort [OF assms, of s] obtain logs where l:
    "PurgeDB e s = (Some 0, s\<lparr>trace := trace s @ logs @ [Unlock]\<rparr>)" "logs \<noteq> []"
    "\<forall>ev \<in> set (butlast logs). progress_log ev" "is_failure_log (last logs)"
    by blast
  have "is_log ev \<and> \<not> is_remove ev \<and> \<not> is_index_write ev" if "ev \<in> set logs" for ev
  proof -
    from that l(2) have "ev \<in> set (butlast logs) \<or> ev = last logs"
      by (metis append_butlast_last_id in_set_conv_decomp rotate1.simps(2) set_ConsD set_rotate1)
    with l(3,4) show ?thesis
      by (auto dest: progress_log_facts failure_log_facts)
  qed
  with l(1) show ?thesis by blast
qed

subsection \<open>Two runs with the same constants\<close>

lemma have_data_or_undo_cong:
  "BLOCK_HAVE_DATA e' = BLOCK_HAVE_DATA e \<Longrightarrow> BLOCK_HAVE_UNDO e' = BLOCK_HAVE_UNDO e \<Longrightarrow>
   have_data_or_undo e' b = have_data_or_undo e b"
  by (simp add: have_data_or_undo_def)

lemma in_view_cong:
  "MIN_HISTORY e' = MIN_HISTORY e \<Longrightarrow> Height e' = Height e \<Longrightarrow> nHeight b' = nHeight b \<Longrightarrow>
   in_view e' b' = in_view e b"
  by (simp add: in_view_def)

subsection \<open>Evaluation on the concrete node\<close>

lemmas ex_defs = e_ex_def s_ex_def setNeed_of_def setDelete_of_def have_data_or_undo_def
  clear_flags_def emit_def remove_path_def fail_def PurgeDB_def sscanf_d_def isspace_def
  isdigit_def Let_def insort_insert_key_def int_add_def

lemma setNeed_ex: "setNeed_of e_ex s_ex = {7}"
  by (simp add: ex_defs)

lemma setDelete_ex: "setDelete_of e_ex s_ex = [30, 40]"
  by (simp add: ex_defs)

lemma PurgeDB_run_nodir:
  assumes "passes_checks e" and "\<not> exists_pathBlocks e"
  shows "\<exists>pre. trace (snd (PurgeDB e s)) =
        trace s @ pre @ [LogPrintf ''Could not open blocks directory'' [], Unlock] \<and>
      (\<forall>ev \<in> set pre. mutator_event e (heap s) (setDelete_of e s) ev) \<and>
      (\<forall>p \<in> set (setDelete_of e s). WriteBlockIndex p (clear_flags e (heap s p)) \<in> set pre) \<and>
      fst (PurgeDB e s) = Some 0 \<and>
      pathBlocks (snd (PurgeDB e s)) = pathBlocks s"
proof -
  from PurgeDB_run_trace [OF assms(1), of s] obtain pre post where
    "trace (snd (PurgeDB e s)) =
        trace s @ pre @ post @ (if fst (PurgeDB e s) = None then [] else [Unlock]) \<and>
      (\<forall>ev \<in> set pre. mutator_event e (heap s) (setDelete_of e s) ev) \<and>
      (\<forall>p \<in> set (setDelete_of e s). WriteBlockIndex p (clear_flags e (heap s p)) \<in> set pre) \<and>
      post = [LogPrintf ''Could not open blocks directory'' []] \<and>
      fst (PurgeDB e s) = Some 0 \<and>
      pathBlocks (snd (PurgeDB e s)) = pathBlocks s"
    by (simp only: assms(2) if_False) (elim exE, rule that)
  then show ?thesis
    by (intro exI [of _ pre]) simp
qed

lemma PurgeDB_run_dir:
  assumes "passes_checks e" and "exists_pathBlocks e"
  shows "\<exists>pre post. trace (snd (PurgeDB e s)) =
        trace s @ pre @ post @ (if fst (PurgeDB e s) = None then [] else [Unlock]) \<and>
      (\<forall>ev \<in> set pre. mutator_event e (heap s) (setDelete_of e s) ev) \<and>
      (\<forall>p \<in> set (setDelete_of e s). WriteBlockIndex p (clear_flags e (heap s p)) \<in> set pre) \<and>
      (\<forall>ev \<in> set post. reaper_event ev) \<and>
      pathBlocks (snd (PurgeDB e s)) = filter (\<lambda>f. Remove f \<notin> set post) (pathBlocks s) \<and>
      (\<forall>f. Remove f \<in> set post \<longrightarrow> f \<in> set (pathBlocks s) \<and> reaped (setNeed_of e s) f) \<and>
      (fst (PurgeDB e s) = Some 0 \<longrightarrow>
         (\<forall>f \<in> set (pathBlocks s). reaped (setNeed_of e s) f \<longrightarrow> Remove f \<in> set post)) \<and>
      (fst (PurgeDB e s) = Some 0 \<longleftrightarrow>
         (\<forall>f \<in> set (pathBlocks s). reaped (setNeed_of e s) f \<longrightarrow> \<not> remove_throws e f))"
  using PurgeDB_run_trace [OF assms(1), of s] by (simp only: assms(2) if_True)

subsection \<open>A removal that throws\<close>

text \<open>
  \<^verbatim>\<open>PurgeDB\<close> has no handler. When \<^verbatim>\<open>remove\<close> throws on an entry that reaches it, the
  exception leaves the function: the index has been rewritten by then, the lock is not
  released by line 123 and \<^verbatim>\<open>exit(0)\<close> is not called.
\<close>

lemma not_unlock_events:
  "\<not> mutator_event e hp setDelete Unlock"
  "\<not> reaper_event Unlock"
  by (auto simp: mutator_event_def block_event_def reaper_event_def progress_log_def)

lemma PurgeDB_uncaught:
  assumes "passes_checks e" and "exists_pathBlocks e"
    and "f \<in> set (pathBlocks s)" and "reaped (setNeed_of e s) f" and "remove_throws e f"
  shows "fst (PurgeDB e s) = None"
    and "\<exists>evs. trace (snd (PurgeDB e s)) = trace s @ evs \<and> Unlock \<notin> set evs \<and>
      (\<forall>p \<in> set (setDelete_of e s). WriteBlockIndex p (clear_flags e (heap s p)) \<in> set evs)"
proof -
  from PurgeDB_run_dir [OF assms(1,2), of s] obtain pre post where pp:
    "trace (snd (PurgeDB e s)) =
        trace s @ pre @ post @ (if fst (PurgeDB e s) = None then [] else [Unlock])"
    "\<forall>ev \<in> set pre. mutator_event e (heap s) (setDelete_of e s) ev"
    "\<forall>p \<in> set (setDelete_of e s). WriteBlockIndex p (clear_flags e (heap s p)) \<in> set pre"
    "\<forall>ev \<in> set post. reaper_event ev"
    "fst (PurgeDB e s) = Some 0 \<longleftrightarrow>
       (\<forall>f \<in> set (pathBlocks s). reaped (setNeed_of e s) f \<longrightarrow> \<not> remove_throws e f)"
    by blast
  from pp(5) assms(3-5) have "fst (PurgeDB e s) \<noteq> Some 0"
    by blast
  with PurgeDB_run_status [OF assms(1), of s] show none: "fst (PurgeDB e s) = None"
    by blast
  have t: "trace (snd (PurgeDB e s)) = trace s @ (pre @ post)"
    using pp(1) none by simp
  have u: "Unlock \<notin> set (pre @ post)"
    using pp(2,4) by (auto simp: not_unlock_events)
  have w: "\<forall>p \<in> set (setDelete_of e s).
      WriteBlockIndex p (clear_flags e (heap s p)) \<in> set (pre @ post)"
    using pp(3) by simp
  from t u w show "\<exists>evs. trace (snd (PurgeDB e s)) = trace s @ evs \<and> Unlock \<notin> set evs \<and>
      (\<forall>p \<in> set (setDelete_of e s). WriteBlockIndex p (clear_flags e (heap s p)) \<in> set evs)"
    by (intro exI [of _ "pre @ post"] conjI)
qed

lemma PurgeDB_uncaught_ex:
  "fst (PurgeDB (e_ex\<lparr>remove_throws := (\<lambda>fname. fname = ''rev00006.dat'')\<rparr>) s_ex) = None"
  "Unlock \<notin> set (trace (snd (PurgeDB (e_ex\<lparr>remove_throws := (\<lambda>fname. fname = ''rev00006.dat'')\<rparr>) s_ex)))"
  "Remove ''blk00006.dat'' \<in> set (trace (snd (PurgeDB (e_ex\<lparr>remove_throws := (\<lambda>fname. fname = ''rev00006.dat'')\<rparr>) s_ex)))"
  "pathBlocks (snd (PurgeDB (e_ex\<lparr>remove_throws := (\<lambda>fname. fname = ''rev00006.dat'')\<rparr>) s_ex)) =
     [''rev00006.dat'', ''blk00007.dat'', ''readme.txt'', ''blk1.dat'',
      ''blk000000001.dat'', ''blk-0001.dat'']"
  by (simp_all add: ex_defs)

section \<open>The claims\<close>

text \<open>
  C1. After the two classification loops, a block whose height plus \<^verbatim>\<open>MIN_HISTORY\<close> is a
  value of \<^verbatim>\<open>int\<close> is in \<^verbatim>\<open>setDelete\<close> if and only if it is a block of \<^verbatim>\<open>mapBlockIndex\<close>,
  this sum is below the height of the tip, the block has \<^verbatim>\<open>BLOCK_HAVE_DATA\<close> or
  \<^verbatim>\<open>BLOCK_HAVE_UNDO\<close> set, and its file is not in \<^verbatim>\<open>setNeed\<close>. In particular a block that
  shares its file with a block still in view (whose sum is a value of \<^verbatim>\<open>int\<close>) is not
  selected, however old it is.
\<close>

theorem C1_prunable_set:
  "(int_range (nHeight (heap s pindex) + MIN_HISTORY e) \<longrightarrow>
      (pindex \<in> set (setDelete_of e s) \<longleftrightarrow>
         pindex \<in> snd ` set (mapBlockIndex s) \<and>
         nHeight (heap s pindex) + MIN_HISTORY e < Height e \<and>
         have_data_or_undo e (heap s pindex) \<and>
         nFile (heap s pindex) \<notin> setNeed_of e s)) \<and>
   (\<forall>pB. pB \<in> snd ` set (mapBlockIndex s) \<and>
      int_range (nHeight (heap s pB) + MIN_HISTORY e) \<and>
      nHeight (heap s pB) + MIN_HISTORY e \<ge> Height e \<and>
      nFile (heap s pB) = nFile (heap s pindex) \<longrightarrow>
      pindex \<notin> set (setDelete_of e s))"
proof -
  have "nFile (heap s pindex) \<in> setNeed_of e s"
    if "pB \<in> snd ` set (mapBlockIndex s)" "int_range (nHeight (heap s pB) + MIN_HISTORY e)"
      "nHeight (heap s pB) + MIN_HISTORY e \<ge> Height e"
      "nFile (heap s pB) = nFile (heap s pindex)" for pB
    unfolding setNeed_of_eq in_view_def
    by (intro CollectI exI [of _ pB]) (simp add: that int_add_in_range)
  then show ?thesis
    unfolding setDelete_of_set by (auto simp: in_view_def int_add_in_range)
qed

theorem C1_prunable_set_witness:
  "20 \<in> snd ` set (mapBlockIndex s_ex) \<and>
   int_range (nHeight (heap s_ex 20) + MIN_HISTORY e_ex) \<and>
   nHeight (heap s_ex 20) + MIN_HISTORY e_ex \<ge> Height e_ex \<and>
   nFile (heap s_ex 20) = nFile (heap s_ex 10) \<and>
   nHeight (heap s_ex 10) + MIN_HISTORY e_ex < Height e_ex \<and>
   have_data_or_undo e_ex (heap s_ex 10) \<and>
   10 \<notin> set (setDelete_of e_ex s_ex) \<and>
   int_range (nHeight (heap s_ex 30) + MIN_HISTORY e_ex) \<and>
   30 \<in> set (setDelete_of e_ex s_ex)"
proof -
  have hyp: "20 \<in> snd ` set (mapBlockIndex s_ex) \<and>
      int_range (nHeight (heap s_ex 20) + MIN_HISTORY e_ex) \<and>
      nHeight (heap s_ex 20) + MIN_HISTORY e_ex \<ge> Height e_ex \<and>
      nFile (heap s_ex 20) = nFile (heap s_ex 10)"
    by (simp add: e_ex_def s_ex_def int_range_def)
  have old: "nHeight (heap s_ex 10) + MIN_HISTORY e_ex < Height e_ex \<and>
      have_data_or_undo e_ex (heap s_ex 10)"
    by (simp add: e_ex_def s_ex_def have_data_or_undo_def)
  have A: "10 \<notin> set (setDelete_of e_ex s_ex)"
    using C1_prunable_set [of s_ex 10 e_ex] hyp by blast
  have r: "int_range (nHeight (heap s_ex 30) + MIN_HISTORY e_ex)"
    by (simp add: e_ex_def s_ex_def int_range_def)
  have "30 \<in> snd ` set (mapBlockIndex s_ex) \<and>
      nHeight (heap s_ex 30) + MIN_HISTORY e_ex < Height e_ex \<and>
      have_data_or_undo e_ex (heap s_ex 30) \<and> nFile (heap s_ex 30) \<notin> setNeed_of e_ex s_ex"
    unfolding setNeed_ex by (simp add: e_ex_def s_ex_def have_data_or_undo_def)
  with r have C: "30 \<in> set (setDelete_of e_ex s_ex)"
    using C1_prunable_set [of s_ex 30 e_ex] by blast
  from hyp old A r C show ?thesis by blast
qed

text \<open>
  The block of \<open>s_top\<close> has height \<open>2147483647\<close>: its height plus \<^verbatim>\<open>MIN_HISTORY\<close> is far
  above the tip, but the sum of line 74 wraps around to a negative \<^verbatim>\<open>int\<close> and the block
  is selected.
\<close>

theorem C1_counterexample:
  "50 \<in> snd ` set (mapBlockIndex s_top) \<and>
   \<not> nHeight (heap s_top 50) + MIN_HISTORY e_ex < Height e_ex \<and>
   int_add (nHeight (heap s_top 50)) (MIN_HISTORY e_ex) = - 2147482649 \<and>
   50 \<in> set (setDelete_of e_ex s_top)"
  by (simp add: e_ex_def s_top_def setNeed_of_def setDelete_of_def have_data_or_undo_def
      int_add_def Let_def insort_insert_key_def emit_def)

text \<open>
  C2. After the first loop the file of every block of \<^verbatim>\<open>mapBlockIndex\<close> whose height plus
  \<^verbatim>\<open>MIN_HISTORY\<close> is a value of \<^verbatim>\<open>int\<close> and reaches the height of the tip is in \<^verbatim>\<open>setNeed\<close>,
  whatever the flags of the block are: the statement has no condition on \<^verbatim>\<open>nStatus\<close>.
\<close>

theorem C2_first_pass_protects:
  assumes "(h, pindex) \<in> set (mapBlockIndex s)"
    and "int_range (nHeight (heap s pindex) + MIN_HISTORY e)"
    and "nHeight (heap s pindex) + MIN_HISTORY e \<ge> Height e"
  shows "nFile (heap s pindex) \<in> fst (first_pass e (mapBlockIndex s) {} s)"
proof -
  from assms(2,3) have "in_view e (heap s pindex)"
    by (simp add: in_view_def int_add_in_range)
  moreover from assms(1) have "pindex \<in> snd ` set (mapBlockIndex s)"
    by force
  ultimately show ?thesis
    unfolding first_pass_fst by blast
qed

theorem C2_first_pass_protects_witness:
  "(2, 20) \<in> set (mapBlockIndex s_ex) \<and>
   int_range (nHeight (heap s_ex 20) + MIN_HISTORY e_ex) \<and>
   nHeight (heap s_ex 20) + MIN_HISTORY e_ex \<ge> Height e_ex \<and>
   \<not> have_data_or_undo e_ex (heap s_ex 20) \<and>
   nFile (heap s_ex 20) \<in> fst (first_pass e_ex (mapBlockIndex s_ex) {} s_ex)"
proof -
  have h1: "(2, 20) \<in> set (mapBlockIndex s_ex)"
    by (simp add: s_ex_def)
  have h2: "int_range (nHeight (heap s_ex 20) + MIN_HISTORY e_ex)"
    by (simp add: e_ex_def s_ex_def int_range_def)
  have h3: "nHeight (heap s_ex 20) + MIN_HISTORY e_ex \<ge> Height e_ex"
    by (simp add: e_ex_def s_ex_def)
  have h4: "\<not> have_data_or_undo e_ex (heap s_ex 20)"
    by (simp add: e_ex_def s_ex_def have_data_or_undo_def)
  from h1 h2 h3 h4 C2_first_pass_protects [OF h1 h2 h3] show ?thesis by blast
qed

text \<open>
  The height of the block of \<open>s_top\<close> plus \<^verbatim>\<open>MIN_HISTORY\<close> is above the tip, but the sum of
  line 63 wraps around: file 3 does not get into \<^verbatim>\<open>setNeed\<close>.
\<close>

theorem C2_counterexample:
  "(5, 50) \<in> set (mapBlockIndex s_top) \<and>
   nHeight (heap s_top 50) + MIN_HISTORY e_ex \<ge> Height e_ex \<and>
   int_add (nHeight (heap s_top 50)) (MIN_HISTORY e_ex) = - 2147482649 \<and>
   nFile (heap s_top 50) \<notin> fst (first_pass e_ex (mapBlockIndex s_top) {} s_top)"
  by (simp add: e_ex_def s_top_def int_add_def Let_def)

text \<open>
  C3. When the height of the tip is at most \<^verbatim>\<open>MIN_HISTORY\<close>, \<^verbatim>\<open>PurgeDB\<close> leaves the block
  index objects, \<^verbatim>\<open>mapBlockIndex\<close> and the directory as they were, and all it does is
  write log lines and release the lock: no \<^verbatim>\<open>EraseTxIndex\<close>, no \<^verbatim>\<open>WriteBlockIndex\<close> and
  no \<^verbatim>\<open>remove\<close>. When the three earlier checks passed, the last log line is
  \<^verbatim>\<open>Not enough history to prune\<close>.
\<close>

theorem C3_no_history_no_change:
  assumes "Height e \<le> MIN_HISTORY e"
  shows "heap (snd (PurgeDB e s)) = heap s \<and>
     mapBlockIndex (snd (PurgeDB e s)) = mapBlockIndex s \<and>
     pathBlocks (snd (PurgeDB e s)) = pathBlocks s \<and>
     (\<exists>logs. trace (snd (PurgeDB e s)) = trace s @ logs @ [Unlock] \<and>
        (\<forall>ev \<in> set logs. is_log ev) \<and>
        (try_lock e \<and> LoadBlockIndex e \<and> ActivateBestChain e \<longrightarrow>
           last logs = LogPrintf ''Not enough history to prune'' []))"
proof -
  consider "\<not> try_lock e" | "try_lock e" "\<not> LoadBlockIndex e"
    | "try_lock e" "LoadBlockIndex e" "\<not> ActivateBestChain e"
    | "try_lock e" "LoadBlockIndex e" "ActivateBestChain e"
    by blast
  then show ?thesis
  proof cases
    case 1
    show ?thesis
      unfolding PurgeDB_no_lock [OF 1]
      using 1 by (intro conjI exI [of _ "[LogPrintf ''Cannot obtain a lock on data directory. FeedBackCoin Core is probably already running.'' []]"]) simp_all
  next
    case 2
    show ?thesis
      unfolding PurgeDB_no_index [OF 2]
      using 2 by (intro conjI exI [of _ "[LogPrintf ''Are you sure you want to purge?!!!!'' [],
            LogPrintf ''Loading databases'' [], LogPrintf ''Error loading block database'' []]"]) simp_all
  next
    case 3
    show ?thesis
      unfolding PurgeDB_no_chain [OF 3]
      using 3 by (intro conjI exI [of _ "[LogPrintf ''Are you sure you want to purge?!!!!'' [],
            LogPrintf ''Loading databases'' [], LogPrintf ''Could not activate best chain'' []]"]) simp_all
  next
    case 4
    show ?thesis
      unfolding PurgeDB_no_history [OF 4 assms]
      using 4 by (intro conjI exI [of _ "[LogPrintf ''Are you sure you want to purge?!!!!'' [],
            LogPrintf ''Loading databases'' [],
            LogPrintf (''Tip is block %ld'' @ [CHR 0x0A]) [Height e],
            LogPrintf ''Not enough history to prune'' []]"]) simp_all
  qed
qed

theorem C3_no_history_no_change_witness:
  "Height (e_ex\<lparr>Height := 1000\<rparr>) \<le> MIN_HISTORY (e_ex\<lparr>Height := 1000\<rparr>) \<and>
   heap (snd (PurgeDB (e_ex\<lparr>Height := 1000\<rparr>) s_ex)) = heap s_ex \<and>
   mapBlockIndex (snd (PurgeDB (e_ex\<lparr>Height := 1000\<rparr>) s_ex)) = mapBlockIndex s_ex \<and>
   pathBlocks (snd (PurgeDB (e_ex\<lparr>Height := 1000\<rparr>) s_ex)) = pathBlocks s_ex \<and>
   list_all is_log (butlast (trace (snd (PurgeDB (e_ex\<lparr>Height := 1000\<rparr>) s_ex)))) \<and>
   last (butlast (trace (snd (PurgeDB (e_ex\<lparr>Height := 1000\<rparr>) s_ex)))) =
     LogPrintf ''Not enough history to prune'' [] \<and>
   last (trace (snd (PurgeDB (e_ex\<lparr>Height := 1000\<rparr>) s_ex))) = Unlock"
proof -
  have h: "Height (e_ex\<lparr>Height := 1000\<rparr>) \<le> MIN_HISTORY (e_ex\<lparr>Height := 1000\<rparr>)"
    by (simp add: e_ex_def)
  have c: "try_lock (e_ex\<lparr>Height := 1000\<rparr>) \<and> LoadBlockIndex (e_ex\<lparr>Height := 1000\<rparr>) \<and>
      ActivateBestChain (e_ex\<lparr>Height := 1000\<rparr>)"
    by (simp add: e_ex_def)
  have t: "trace s_ex = []"
    by (simp add: s_ex_def)
  from C3_no_history_no_change [OF h, of s_ex] h c show ?thesis
    by (auto simp: t list_all_iff butlast_append)
qed

text \<open>
  C4. The directory loop removes an entry only if its name has exactly 12 characters,
  begins with \<^verbatim>\<open>blk\<close> or \<^verbatim>\<open>rev\<close>, and \<^verbatim>\<open>sscanf\<close> reads from the rest an index that is not in
  \<^verbatim>\<open>setNeed\<close>. When no \<^verbatim>\<open>remove\<close> of an entry throws, the loop runs to its end, and an entry
  named by a tag \<^verbatim>\<open>blk\<close> or \<^verbatim>\<open>rev\<close>, five digits and \<^verbatim>\<open>.dat\<close> is removed if and only if the
  number the digits write is not in \<^verbatim>\<open>setNeed\<close>. The entries that are left are those that
  were not removed.
\<close>

theorem C4_directory_loop:
  "\<exists>evs. trace (state_of (delete_files e setNeed entries s)) = trace s @ evs \<and>
     pathBlocks (state_of (delete_files e setNeed entries s)) =
       filter (\<lambda>f. Remove f \<notin> set evs) (pathBlocks s) \<and>
     (\<forall>f. Remove f \<in> set evs \<longrightarrow>
        f \<in> set entries \<and> length f = 12 \<and> (take 3 f = ''blk'' \<or> take 3 f = ''rev'') \<and>
        (\<exists>idx. sscanf_d (drop 3 f) = Some idx \<and> idx \<notin> setNeed)) \<and>
     ((\<forall>f \<in> set entries. \<not> remove_throws e f) \<longrightarrow>
        (\<exists>s'. delete_files e setNeed entries s = Inr s') \<and>
        (\<forall>tag ds. (tag = ''blk'' \<or> tag = ''rev'') \<and> length ds = 5 \<and> list_all isdigit ds \<and>
           tag @ ds @ ''.dat'' \<in> set entries \<longrightarrow>
           (Remove (tag @ ds @ ''.dat'') \<in> set evs \<longleftrightarrow> decimal 0 ds \<notin> setNeed)))"
proof -
  let ?r = "delete_files e setNeed entries s"
  from delete_files_run [of e setNeed entries s] obtain evs where
    "reaper_run e setNeed entries s ?r evs" ..
  then have evs: "trace (state_of ?r) = trace s @ evs"
    "pathBlocks (state_of ?r) = filter (\<lambda>f. Remove f \<notin> set evs) (pathBlocks s)"
    "\<forall>f. Remove f \<in> set evs \<longrightarrow> f \<in> set entries \<and> reaped setNeed f"
    "(\<exists>s'. ?r = Inr s') \<longrightarrow> (\<forall>f \<in> set entries. reaped setNeed f \<longrightarrow> Remove f \<in> set evs)"
    "(\<exists>s'. ?r = Inr s') \<longleftrightarrow> (\<forall>f \<in> set entries. reaped setNeed f \<longrightarrow> \<not> remove_throws e f)"
    unfolding reaper_run_def by blast+
  have 2: "f \<in> set entries \<and> length f = 12 \<and> (take 3 f = ''blk'' \<or> take 3 f = ''rev'') \<and>
      (\<exists>idx. sscanf_d (drop 3 f) = Some idx \<and> idx \<notin> setNeed)"
    if "Remove f \<in> set evs" for f
  proof -
    from that evs(3) have "f \<in> set entries" "reaped setNeed f"
      by blast+
    then show ?thesis
      unfolding reaped_def by (auto split: option.splits)
  qed
  have 3: "\<exists>s'. ?r = Inr s'" if "\<forall>f \<in> set entries. \<not> remove_throws e f"
    using that evs(5) by blast
  have 4: "Remove (tag @ ds @ ''.dat'') \<in> set evs \<longleftrightarrow> decimal 0 ds \<notin> setNeed"
    if "\<forall>f \<in> set entries. \<not> remove_throws e f"
      "tag = ''blk'' \<or> tag = ''rev''" "length ds = 5" "list_all isdigit ds"
      "tag @ ds @ ''.dat'' \<in> set entries" for tag ds
  proof -
    from that(3) have "ds \<noteq> []" by auto
    then have "sscanf_d (ds @ ''.dat'') = Some (decimal 0 ds)"
      using that(4) by (rule sscanf_d_digits)
    with that(2,3) have "reaped setNeed (tag @ ds @ ''.dat'') \<longleftrightarrow> decimal 0 ds \<notin> setNeed"
      by (auto simp: reaped_def)
    moreover have "Remove (tag @ ds @ ''.dat'') \<in> set evs \<longleftrightarrow> reaped setNeed (tag @ ds @ ''.dat'')"
      using evs(3,4) 3 [OF that(1)] that(5) by blast
    ultimately show ?thesis
      by simp
  qed
  from evs(1,2) 2 3 4 show ?thesis
    by (intro exI [of _ evs]) blast
qed

theorem C4_directory_loop_witness:
  "list_all (\<lambda>f. \<not> remove_throws e_ex f) (pathBlocks s_ex) \<and>
   ''blk00001.dat'' \<notin> set (pathBlocks (state_of (delete_files e_ex {7} (pathBlocks s_ex) s_ex))) \<and>
   ''blk00007.dat'' \<in> set (pathBlocks (state_of (delete_files e_ex {7} (pathBlocks s_ex) s_ex))) \<and>
   ''readme.txt'' \<in> set (pathBlocks (state_of (delete_files e_ex {7} (pathBlocks s_ex) s_ex))) \<and>
   ''blk1.dat'' \<in> set (pathBlocks (state_of (delete_files e_ex {7} (pathBlocks s_ex) s_ex))) \<and>
   ''blk000000001.dat'' \<in> set (pathBlocks (state_of (delete_files e_ex {7} (pathBlocks s_ex) s_ex)))"
proof -
  have ok: "\<forall>f \<in> set (pathBlocks s_ex). \<not> remove_throws e_ex f"
    by (simp add: e_ex_def)
  from C4_directory_loop [of e_ex "{7}" "pathBlocks s_ex" s_ex] obtain evs where body:
    "trace (state_of (delete_files e_ex {7} (pathBlocks s_ex) s_ex)) = trace s_ex @ evs \<and>
     pathBlocks (state_of (delete_files e_ex {7} (pathBlocks s_ex) s_ex)) =
       filter (\<lambda>f. Remove f \<notin> set evs) (pathBlocks s_ex) \<and>
     (\<forall>f. Remove f \<in> set evs \<longrightarrow>
        f \<in> set (pathBlocks s_ex) \<and> length f = 12 \<and>
        (take 3 f = ''blk'' \<or> take 3 f = ''rev'') \<and>
        (\<exists>idx. sscanf_d (drop 3 f) = Some idx \<and> idx \<notin> {7})) \<and>
     ((\<forall>f \<in> set (pathBlocks s_ex). \<not> remove_throws e_ex f) \<longrightarrow>
        (\<exists>s'. delete_files e_ex {7} (pathBlocks s_ex) s_ex = Inr s') \<and>
        (\<forall>tag ds. (tag = ''blk'' \<or> tag = ''rev'') \<and> length ds = 5 \<and> list_all isdigit ds \<and>
           tag @ ds @ ''.dat'' \<in> set (pathBlocks s_ex) \<longrightarrow>
           (Remove (tag @ ds @ ''.dat'') \<in> set evs \<longleftrightarrow> decimal 0 ds \<notin> {7})))" ..
  note evs1 = body [THEN conjunct2, THEN conjunct1]
  note evs2 = body [THEN conjunct2, THEN conjunct2, THEN conjunct1, rule_format, THEN conjunct2,
      THEN conjunct1]
  note evs3 = body [THEN conjunct2, THEN conjunct2, THEN conjunct2, THEN mp, OF ok,
      THEN conjunct2, rule_format]
  have p: "pathBlocks s_ex = [''blk00001.dat'', ''blk00006.dat'', ''rev00006.dat'',
      ''blk00007.dat'', ''readme.txt'', ''blk1.dat'', ''blk000000001.dat'', ''blk-0001.dat'']"
    by (simp add: s_ex_def)
  have "Remove (''blk'' @ ''00001'' @ ''.dat'') \<in> set evs \<longleftrightarrow> decimal 0 ''00001'' \<notin> {7}"
    by (rule evs3) (simp add: p isdigit_def)
  then have 1: "Remove ''blk00001.dat'' \<in> set evs"
    by simp
  have "Remove (''blk'' @ ''00007'' @ ''.dat'') \<in> set evs \<longleftrightarrow> decimal 0 ''00007'' \<notin> {7}"
    by (rule evs3) (simp add: p isdigit_def)
  then have 7: "Remove ''blk00007.dat'' \<notin> set evs"
    by simp
  have o: "Remove ''readme.txt'' \<notin> set evs" "Remove ''blk1.dat'' \<notin> set evs"
    "Remove ''blk000000001.dat'' \<notin> set evs"
    using evs2 by fastforce+
  have m: "f \<in> set (pathBlocks (state_of (delete_files e_ex {7} (pathBlocks s_ex) s_ex))) \<longleftrightarrow>
      f \<in> set (pathBlocks s_ex) \<and> Remove f \<notin> set evs" for f
    unfolding evs1 by auto
  have l: "list_all (\<lambda>f. \<not> remove_throws e_ex f) (pathBlocks s_ex)"
    using ok by (simp add: list_all_iff)
  have r: "''blk00001.dat'' \<notin> set (pathBlocks (state_of (delete_files e_ex {7} (pathBlocks s_ex) s_ex))) \<and>
      ''blk00007.dat'' \<in> set (pathBlocks (state_of (delete_files e_ex {7} (pathBlocks s_ex) s_ex))) \<and>
      ''readme.txt'' \<in> set (pathBlocks (state_of (delete_files e_ex {7} (pathBlocks s_ex) s_ex))) \<and>
      ''blk1.dat'' \<in> set (pathBlocks (state_of (delete_files e_ex {7} (pathBlocks s_ex) s_ex))) \<and>
      ''blk000000001.dat'' \<in> set (pathBlocks (state_of (delete_files e_ex {7} (pathBlocks s_ex) s_ex)))"
    unfolding m using 1 7 o by (simp add: p)
  from l r show ?thesis ..
qed

text \<open>
  The name \<^verbatim>\<open>blk000000001.dat\<close> has 16 characters, so line 106 skips it: the entry stays
  although 1 is not in \<^verbatim>\<open>setNeed\<close>.
\<close>

theorem C4_counterexample:
  "length ''blk000000001.dat'' = 16 \<and>
   delete_files e_ex {} [''blk000000001.dat''] s_ex = Inr s_ex \<and>
   setNeed_of e_ex s_ex = {7} \<and>
   ''blk000000001.dat'' \<in> set (pathBlocks s_ex) \<and>
   ''blk000000001.dat'' \<in> set (pathBlocks (snd (PurgeDB e_ex s_ex))) \<and>
   Remove ''blk000000001.dat'' \<notin> set (trace (snd (PurgeDB e_ex s_ex)))"
  by (simp add: ex_defs)

text \<open>
  C5. On the concrete node \<^verbatim>\<open>ReadBlockFromDisk\<close> fails for block 30, the first block of
  \<^verbatim>\<open>setDelete\<close>. The third loop still clears the flags of block 30, writes its record,
  and goes on to block 40; the directory loop then removes the files.
\<close>

theorem C5_read_failure_ignored:
  "ReadBlockFromDisk e_ex 30 = (False, []) \<and>
   setDelete_of e_ex s_ex = [30, 40] \<and>
   nStatus (heap s_ex 30) = 29 \<and>
   nStatus (heap (third_pass e_ex [30, 40] s_ex) 30) = 5 \<and>
   trace (third_pass e_ex [30, 40] s_ex) =
     [LogPrintf ''add telete tx'' [],
      WriteBlockIndex 30 \<lparr>nHeight = 3000, nFile = 6, nStatus = 5\<rparr>,
      LogPrintf ''add telete tx'' [], EraseTxIndex 170, LogPrintf ''telete tx'' [],
      EraseTxIndex 187, LogPrintf ''telete tx'' [],
      WriteBlockIndex 40 \<lparr>nHeight = 3100, nFile = 6, nStatus = 5\<rparr>] \<and>
   WriteBlockIndex 30 \<lparr>nHeight = 3000, nFile = 6, nStatus = 5\<rparr>
     \<in> set (trace (snd (PurgeDB e_ex s_ex))) \<and>
   Remove ''blk00006.dat'' \<in> set (trace (snd (PurgeDB e_ex s_ex)))"
  by (simp add: ex_defs)

text \<open>
  C6. The events of a run split in two: a first part without any \<^verbatim>\<open>remove\<close> and a second
  part without any \<^verbatim>\<open>EraseTxIndex\<close> or \<^verbatim>\<open>WriteBlockIndex\<close>. When the checks have passed,
  the first part holds the \<^verbatim>\<open>WriteBlockIndex\<close> of every block of \<^verbatim>\<open>setDelete\<close>, written
  with its flags cleared, as the object in memory has them at the end. When the
  \<^verbatim>\<open>blocks\<close> directory is missing, the second part is the log line and the unlock, and
  no file is gone, but the first part is as before.
\<close>

theorem C6_index_before_files:
  "\<exists>pre post. trace (snd (PurgeDB e s)) = trace s @ pre @ post \<and>
     (\<forall>ev \<in> set pre. \<not> is_remove ev) \<and>
     (\<forall>ev \<in> set post. \<not> is_index_write ev) \<and>
     (passes_checks e \<longrightarrow>
        (\<forall>pindex \<in> set (setDelete_of e s).
           WriteBlockIndex pindex (clear_flags e (heap s pindex)) \<in> set pre \<and>
           heap (snd (PurgeDB e s)) pindex = clear_flags e (heap s pindex))) \<and>
     (passes_checks e \<and> \<not> exists_pathBlocks e \<longrightarrow>
        post = [LogPrintf ''Could not open blocks directory'' [], Unlock] \<and>
        pathBlocks (snd (PurgeDB e s)) = pathBlocks s)"
proof (cases "passes_checks e")
  case True
  let ?end = "if fst (PurgeDB e s) = None then [] else [Unlock]"
  from PurgeDB_run_trace [OF True, of s] obtain pre post where pp:
    "trace (snd (PurgeDB e s)) = trace s @ pre @ post @ ?end"
    "\<forall>ev \<in> set pre. mutator_event e (heap s) (setDelete_of e s) ev"
    "\<forall>p \<in> set (setDelete_of e s). WriteBlockIndex p (clear_flags e (heap s p)) \<in> set pre"
    "exists_pathBlocks e \<longrightarrow> (\<forall>ev \<in> set post. reaper_event ev)"
    "\<not> exists_pathBlocks e \<longrightarrow> post = [LogPrintf ''Could not open blocks directory'' []] \<and>
       fst (PurgeDB e s) = Some 0 \<and> pathBlocks (snd (PurgeDB e s)) = pathBlocks s"
    by (auto split: if_splits)
  have 1: "\<forall>ev \<in> set pre. \<not> is_remove ev"
    using pp(2) by (blast dest: mutator_event_facts)
  have "\<forall>ev \<in> set post. \<not> is_index_write ev"
    using pp(4,5) by (cases "exists_pathBlocks e") (auto dest: reaper_event_facts)
  then have 2: "\<forall>ev \<in> set (post @ ?end). \<not> is_index_write ev"
    by simp
  have 3: "heap (snd (PurgeDB e s)) p = clear_flags e (heap s p)"
    if "p \<in> set (setDelete_of e s)" for p
    using that by (simp add: PurgeDB_run_heap [OF True])
  have 4: "post @ ?end = [LogPrintf ''Could not open blocks directory'' [], Unlock] \<and>
      pathBlocks (snd (PurgeDB e s)) = pathBlocks s" if "\<not> exists_pathBlocks e"
    using that pp(5) by simp
  show ?thesis
    by (rule exI [of _ pre], rule exI [of _ "post @ ?end"]) (use pp(1,3) 1 2 3 4 in blast)
next
  case False
  from PurgeDB_abort_logs [OF False, of s] obtain logs where l:
    "PurgeDB e s = (Some 0, s\<lparr>trace := trace s @ logs @ [Unlock]\<rparr>)"
    "\<forall>ev \<in> set logs. is_log ev \<and> \<not> is_remove ev \<and> \<not> is_index_write ev"
    by blast
  show ?thesis
    by (rule exI [of _ "logs @ [Unlock]"], rule exI [of _ "[]"]) (use False l in auto)
qed

theorem C6_index_before_files_witness:
  "passes_checks (e_ex\<lparr>exists_pathBlocks := False\<rparr>) \<and>
   \<not> exists_pathBlocks (e_ex\<lparr>exists_pathBlocks := False\<rparr>) \<and>
   30 \<in> set (setDelete_of (e_ex\<lparr>exists_pathBlocks := False\<rparr>) s_ex) \<and>
   WriteBlockIndex 30 \<lparr>nHeight = 3000, nFile = 6, nStatus = 5\<rparr>
     \<in> set (trace (snd (PurgeDB (e_ex\<lparr>exists_pathBlocks := False\<rparr>) s_ex))) \<and>
   heap (snd (PurgeDB (e_ex\<lparr>exists_pathBlocks := False\<rparr>) s_ex)) 30 =
     \<lparr>nHeight = 3000, nFile = 6, nStatus = 5\<rparr> \<and>
   pathBlocks (snd (PurgeDB (e_ex\<lparr>exists_pathBlocks := False\<rparr>) s_ex)) = pathBlocks s_ex"
proof -
  let ?e = "e_ex\<lparr>exists_pathBlocks := False\<rparr>"
  have c: "passes_checks ?e" "\<not> exists_pathBlocks ?e"
    by (simp_all add: passes_checks_def e_ex_def)
  have d: "setDelete_of ?e s_ex = [30, 40]"
    by (simp add: ex_defs)
  have b: "clear_flags ?e (heap s_ex 30) = \<lparr>nHeight = 3000, nFile = 6, nStatus = 5\<rparr>"
    by (simp add: ex_defs)
  from C6_index_before_files [of ?e s_ex] c d b show ?thesis
    by auto
qed

text \<open>
  C7. Each of the five failures that \<^verbatim>\<open>PurgeDB\<close> checks for ends at the label \<^verbatim>\<open>fail\<close>, as a
  run that gets to the end of the directory loop does: the lock is released and the exit
  status is 0. The status does not tell such a failure from a run that went through;
  the log does: the failure writes its own line last before the lock is released, and
  a run that went through writes none of these lines.
\<close>

theorem C7_exit_status_zero:
  "(\<not> try_lock e \<longrightarrow>
      fst (PurgeDB e s) = Some 0 \<and>
      (\<exists>evs. trace (snd (PurgeDB e s)) = trace s @ evs @ [Unlock] \<and>
         last evs = LogPrintf ''Cannot obtain a lock on data directory. FeedBackCoin Core is probably already running.'' [])) \<and>
   (try_lock e \<and> \<not> LoadBlockIndex e \<longrightarrow>
      fst (PurgeDB e s) = Some 0 \<and>
      (\<exists>evs. trace (snd (PurgeDB e s)) = trace s @ evs @ [Unlock] \<and>
         last evs = LogPrintf ''Error loading block database'' [])) \<and>
   (try_lock e \<and> LoadBlockIndex e \<and> \<not> ActivateBestChain e \<longrightarrow>
      fst (PurgeDB e s) = Some 0 \<and>
      (\<exists>evs. trace (snd (PurgeDB e s)) = trace s @ evs @ [Unlock] \<and>
         last evs = LogPrintf ''Could not activate best chain'' [])) \<and>
   (try_lock e \<and> LoadBlockIndex e \<and> ActivateBestChain e \<and> Height e \<le> MIN_HISTORY e \<longrightarrow>
      fst (PurgeDB e s) = Some 0 \<and>
      (\<exists>evs. trace (snd (PurgeDB e s)) = trace s @ evs @ [Unlock] \<and>
         last evs = LogPrintf ''Not enough history to prune'' [])) \<and>
   (passes_checks e \<and> \<not> exists_pathBlocks e \<longrightarrow>
      fst (PurgeDB e s) = Some 0 \<and>
      (\<exists>evs. trace (snd (PurgeDB e s)) = trace s @ evs @ [Unlock] \<and>
         last evs = LogPrintf ''Could not open blocks directory'' [])) \<and>
   (passes_checks e \<and> exists_pathBlocks e \<and> (\<forall>f \<in> set (pathBlocks s). \<not> remove_throws e f) \<longrightarrow>
      fst (PurgeDB e s) = Some 0 \<and>
      (\<exists>evs. trace (snd (PurgeDB e s)) = trace s @ evs @ [Unlock] \<and>
         (\<forall>ev \<in> set evs. \<not> is_failure_log ev)))"
proof (intro conjI impI)
  assume 1: "\<not> try_lock e"
  show "fst (PurgeDB e s) = Some 0"
    by (simp add: PurgeDB_no_lock [OF 1])
  show "\<exists>evs. trace (snd (PurgeDB e s)) = trace s @ evs @ [Unlock] \<and>
      last evs = LogPrintf ''Cannot obtain a lock on data directory. FeedBackCoin Core is probably already running.'' []"
    unfolding PurgeDB_no_lock [OF 1]
    by (intro exI [of _ "[LogPrintf ''Cannot obtain a lock on data directory. FeedBackCoin Core is probably already running.'' []]"]) simp
next
  assume "try_lock e \<and> \<not> LoadBlockIndex e"
  then have 2: "try_lock e" "\<not> LoadBlockIndex e"
    by simp_all
  show "fst (PurgeDB e s) = Some 0"
    by (simp add: PurgeDB_no_index [OF 2])
  show "\<exists>evs. trace (snd (PurgeDB e s)) = trace s @ evs @ [Unlock] \<and>
      last evs = LogPrintf ''Error loading block database'' []"
    unfolding PurgeDB_no_index [OF 2]
    by (intro exI [of _ "[LogPrintf ''Are you sure you want to purge?!!!!'' [],
          LogPrintf ''Loading databases'' [], LogPrintf ''Error loading block database'' []]"]) simp
next
  assume "try_lock e \<and> LoadBlockIndex e \<and> \<not> ActivateBestChain e"
  then have 3: "try_lock e" "LoadBlockIndex e" "\<not> ActivateBestChain e"
    by simp_all
  show "fst (PurgeDB e s) = Some 0"
    by (simp add: PurgeDB_no_chain [OF 3])
  show "\<exists>evs. trace (snd (PurgeDB e s)) = trace s @ evs @ [Unlock] \<and>
      last evs = LogPrintf ''Could not activate best chain'' []"
    unfolding PurgeDB_no_chain [OF 3]
    by (intro exI [of _ "[LogPrintf ''Are you sure you want to purge?!!!!'' [],
          LogPrintf ''Loading databases'' [], LogPrintf ''Could not activate best chain'' []]"]) simp
next
  assume "try_lock e \<and> LoadBlockIndex e \<and> ActivateBestChain e \<and> Height e \<le> MIN_HISTORY e"
  then have 4: "try_lock e" "LoadBlockIndex e" "ActivateBestChain e" "Height e \<le> MIN_HISTORY e"
    by simp_all
  show "fst (PurgeDB e s) = Some 0"
    by (simp add: PurgeDB_no_history [OF 4])
  show "\<exists>evs. trace (snd (PurgeDB e s)) = trace s @ evs @ [Unlock] \<and>
      last evs = LogPrintf ''Not enough history to prune'' []"
    unfolding PurgeDB_no_history [OF 4]
    by (intro exI [of _ "[LogPrintf ''Are you sure you want to purge?!!!!'' [],
          LogPrintf ''Loading databases'' [],
          LogPrintf (''Tip is block %ld'' @ [CHR 0x0A]) [Height e],
          LogPrintf ''Not enough history to prune'' []]"]) simp
next
  assume "passes_checks e \<and> \<not> exists_pathBlocks e"
  then have 5: "passes_checks e" and n: "\<not> exists_pathBlocks e"
    by simp_all
  from PurgeDB_run_trace [OF 5, of s] n obtain pre where pp:
    "trace (snd (PurgeDB e s)) = trace s @ pre @
       [LogPrintf ''Could not open blocks directory'' []] @
       (if fst (PurgeDB e s) = None then [] else [Unlock])"
    "fst (PurgeDB e s) = Some 0"
    by auto
  show "fst (PurgeDB e s) = Some 0"
    by (rule pp(2))
  have "trace (snd (PurgeDB e s)) =
      trace s @ (pre @ [LogPrintf ''Could not open blocks directory'' []]) @ [Unlock]"
    using pp by simp
  then show "\<exists>evs. trace (snd (PurgeDB e s)) = trace s @ evs @ [Unlock] \<and>
      last evs = LogPrintf ''Could not open blocks directory'' []"
    by (intro exI [of _ "pre @ [LogPrintf ''Could not open blocks directory'' []]"]) simp
next
  assume "passes_checks e \<and> exists_pathBlocks e \<and> (\<forall>f \<in> set (pathBlocks s). \<not> remove_throws e f)"
  then have 6: "passes_checks e" and x: "exists_pathBlocks e"
    and ok: "\<forall>f \<in> set (pathBlocks s). \<not> remove_throws e f"
    by simp_all
  from PurgeDB_run_trace [OF 6, of s] x obtain pre post where pp:
    "trace (snd (PurgeDB e s)) =
       trace s @ pre @ post @ (if fst (PurgeDB e s) = None then [] else [Unlock])"
    "\<forall>ev \<in> set pre. mutator_event e (heap s) (setDelete_of e s) ev"
    "\<forall>ev \<in> set post. reaper_event ev"
    "fst (PurgeDB e s) = Some 0 \<longleftrightarrow>
       (\<forall>f \<in> set (pathBlocks s). reaped (setNeed_of e s) f \<longrightarrow> \<not> remove_throws e f)"
    by auto
  from pp(4) ok show st: "fst (PurgeDB e s) = Some 0"
    by blast
  have "trace (snd (PurgeDB e s)) = trace s @ (pre @ post) @ [Unlock]"
    using pp(1) st by simp
  moreover have "\<forall>ev \<in> set (pre @ post). \<not> is_failure_log ev"
    using pp(2,3) by (auto dest: mutator_event_facts reaper_event_facts)
  ultimately show "\<exists>evs. trace (snd (PurgeDB e s)) = trace s @ evs @ [Unlock] \<and>
      (\<forall>ev \<in> set evs. \<not> is_failure_log ev)"
    by (intro exI [of _ "pre @ post"]) simp
qed

theorem C7_exit_status_zero_witness:
  "\<not> try_lock (e_ex\<lparr>try_lock := False\<rparr>) \<and>
   fst (PurgeDB (e_ex\<lparr>try_lock := False\<rparr>) s_ex) = Some 0 \<and>
   last (butlast (trace (snd (PurgeDB (e_ex\<lparr>try_lock := False\<rparr>) s_ex)))) =
     LogPrintf ''Cannot obtain a lock on data directory. FeedBackCoin Core is probably already running.'' [] \<and>
   passes_checks e_ex \<and> exists_pathBlocks e_ex \<and>
   list_all (\<lambda>f. \<not> remove_throws e_ex f) (pathBlocks s_ex) \<and>
   fst (PurgeDB e_ex s_ex) = Some 0 \<and>
   list_all (\<lambda>ev. \<not> is_failure_log ev) (butlast (trace (snd (PurgeDB e_ex s_ex))))"
proof -
  have a: "\<not> try_lock (e_ex\<lparr>try_lock := False\<rparr>)"
    by simp
  have b: "passes_checks e_ex \<and> exists_pathBlocks e_ex \<and>
      (\<forall>f \<in> set (pathBlocks s_ex). \<not> remove_throws e_ex f)"
    by (simp add: passes_checks_def e_ex_def)
  have t: "trace s_ex = []"
    by (simp add: s_ex_def)
  note locked = C7_exit_status_zero [of "e_ex\<lparr>try_lock := False\<rparr>" s_ex, THEN conjunct1,
      THEN mp, OF a]
  note through = C7_exit_status_zero [of e_ex s_ex, THEN conjunct2, THEN conjunct2,
      THEN conjunct2, THEN conjunct2, THEN conjunct2, THEN mp, OF b]
  from locked
  have 1: "fst (PurgeDB (e_ex\<lparr>try_lock := False\<rparr>) s_ex) = Some 0 \<and>
      last (butlast (trace (snd (PurgeDB (e_ex\<lparr>try_lock := False\<rparr>) s_ex)))) =
        LogPrintf ''Cannot obtain a lock on data directory. FeedBackCoin Core is probably already running.'' []"
    by (auto simp: t butlast_append)
  from through
  have 2: "fst (PurgeDB e_ex s_ex) = Some 0 \<and>
      list_all (\<lambda>ev. \<not> is_failure_log ev) (butlast (trace (snd (PurgeDB e_ex s_ex))))"
    by (auto simp: t butlast_append list_all_iff)
  from b have c: "passes_checks e_ex \<and> exists_pathBlocks e_ex \<and>
      list_all (\<lambda>f. \<not> remove_throws e_ex f) (pathBlocks s_ex)"
    by (simp add: list_all_iff)
  from a c 1 2 show ?thesis by blast
qed

text \<open>
  A run that cannot take the lock, one that cannot load the index, one that cannot
  activate the chain, one with too little history and one without the directory all end
  with the status of the run that went through.
\<close>

theorem C7_counterexample:
  "\<not> try_lock (e_ex\<lparr>try_lock := False\<rparr>) \<and>
   passes_checks e_ex \<and> exists_pathBlocks e_ex \<and>
   fst (PurgeDB e_ex s_ex) = Some 0 \<and>
   fst (PurgeDB (e_ex\<lparr>try_lock := False\<rparr>) s_ex) = fst (PurgeDB e_ex s_ex) \<and>
   fst (PurgeDB (e_ex\<lparr>LoadBlockIndex := False\<rparr>) s_ex) = fst (PurgeDB e_ex s_ex) \<and>
   fst (PurgeDB (e_ex\<lparr>ActivateBestChain := False\<rparr>) s_ex) = fst (PurgeDB e_ex s_ex) \<and>
   fst (PurgeDB (e_ex\<lparr>Height := 1000\<rparr>) s_ex) = fst (PurgeDB e_ex s_ex) \<and>
   fst (PurgeDB (e_ex\<lparr>exists_pathBlocks := False\<rparr>) s_ex) = fst (PurgeDB e_ex s_ex)"
proof -
  have c: "passes_checks e_ex" "exists_pathBlocks e_ex"
    by (simp_all add: passes_checks_def e_ex_def)
  have ok: "fst (PurgeDB e_ex s_ex) = Some 0"
    by (simp add: ex_defs)
  have "fst (PurgeDB (e_ex\<lparr>try_lock := False\<rparr>) s_ex) = Some 0"
    "fst (PurgeDB (e_ex\<lparr>LoadBlockIndex := False\<rparr>) s_ex) = Some 0"
    "fst (PurgeDB (e_ex\<lparr>ActivateBestChain := False\<rparr>) s_ex) = Some 0"
    "fst (PurgeDB (e_ex\<lparr>Height := 1000\<rparr>) s_ex) = Some 0"
    by (simp_all add: PurgeDB_def fail_def e_ex_def)
  moreover have "fst (PurgeDB (e_ex\<lparr>exists_pathBlocks := False\<rparr>) s_ex) = Some 0"
    by (simp add: PurgeDB_def fail_def e_ex_def split_beta Let_def)
  ultimately show ?thesis
    using c ok by simp
qed

text \<open>
  C8. After a run that passed its checks, a second run with the same tip, the same
  \<^verbatim>\<open>MIN_HISTORY\<close> and the same flag values finds \<^verbatim>\<open>setDelete\<close> empty, leaves the block
  index objects alone and writes nothing to the index. It removes a file only if the
  first run did not get to the end of the directory loop (the directory was missing, or
  a \<^verbatim>\<open>remove\<close> threw), and then only a file of the directory that the first run would
  have removed; after a first run that got to the end of the loop, the second one
  removes nothing.
\<close>

theorem C8_second_run:
  assumes "passes_checks e"
    and "MIN_HISTORY e' = MIN_HISTORY e" and "Height e' = Height e"
    and "BLOCK_HAVE_DATA e' = BLOCK_HAVE_DATA e" and "BLOCK_HAVE_UNDO e' = BLOCK_HAVE_UNDO e"
  shows "setDelete_of e' (snd (PurgeDB e s)) = [] \<and>
     heap (snd (PurgeDB e' (snd (PurgeDB e s)))) = heap (snd (PurgeDB e s)) \<and>
     (\<exists>evs. trace (snd (PurgeDB e' (snd (PurgeDB e s)))) = trace (snd (PurgeDB e s)) @ evs \<and>
        (\<forall>ev \<in> set evs. \<not> is_index_write ev) \<and>
        (\<forall>f. Remove f \<in> set evs \<longrightarrow>
           \<not> (exists_pathBlocks e \<and> fst (PurgeDB e s) = Some 0) \<and>
           f \<in> set (pathBlocks s) \<and> reaped (setNeed_of e s) f)) \<and>
     (exists_pathBlocks e \<and> fst (PurgeDB e s) = Some 0 \<longrightarrow>
        pathBlocks (snd (PurgeDB e' (snd (PurgeDB e s)))) = pathBlocks (snd (PurgeDB e s)))"
proof -
  define s1 where "s1 = snd (PurgeDB e s)"
  have h1: "heap s1 =
      (\<lambda>p. if p \<in> set (setDelete_of e s) then clear_flags e (heap s p) else heap s p)"
    and m1: "mapBlockIndex s1 = mapBlockIndex s"
    unfolding s1_def by (rule PurgeDB_run_heap [OF assms(1)], rule PurgeDB_run_map [OF assms(1)])
  have p1: "\<exists>post1. pathBlocks s1 = filter (\<lambda>f. Remove f \<notin> set post1) (pathBlocks s) \<and>
      (fst (PurgeDB e s) = Some 0 \<longrightarrow>
         (\<forall>f \<in> set (pathBlocks s). reaped (setNeed_of e s) f \<longrightarrow> Remove f \<in> set post1))"
    if "exists_pathBlocks e"
    using PurgeDB_run_dir [OF assms(1) that, of s] unfolding s1_def by blast
  have p0: "pathBlocks s1 = pathBlocks s" if "\<not> exists_pathBlocks e"
    using PurgeDB_run_nodir [OF assms(1) that, of s] unfolding s1_def by blast
  have sub: "f \<in> set (pathBlocks s)" if "f \<in> set (pathBlocks s1)" for f
  proof (cases "exists_pathBlocks e")
    case True
    from p1 [OF True] obtain post1 where
      "pathBlocks s1 = filter (\<lambda>f. Remove f \<notin> set post1) (pathBlocks s)"
      by blast
    with that show ?thesis by simp
  next
    case False
    with that p0 show ?thesis by simp
  qed
  have clean: "\<not> reaped (setNeed_of e s) f"
    if "exists_pathBlocks e" "fst (PurgeDB e s) = Some 0" "f \<in> set (pathBlocks s1)" for f
  proof -
    from p1 [OF that(1)] that(2) obtain post1 where
      "pathBlocks s1 = filter (\<lambda>f. Remove f \<notin> set post1) (pathBlocks s)"
      "\<forall>f \<in> set (pathBlocks s). reaped (setNeed_of e s) f \<longrightarrow> Remove f \<in> set post1"
      by blast
    with that(3) show ?thesis by auto
  qed
  have height: "nHeight (heap s1 p) = nHeight (heap s p)"
    and nfile: "nFile (heap s1 p) = nFile (heap s p)" for p
    by (simp_all add: h1)
  have view: "in_view e' (heap s1 p) = in_view e (heap s p)" for p
    by (rule in_view_cong [OF assms(2,3) height])
  have need: "setNeed_of e' s1 = setNeed_of e s"
    by (simp add: setNeed_of_eq m1 view nfile)
  have none: "p \<notin> set (setDelete_of e' s1)" for p
  proof
    assume "p \<in> set (setDelete_of e' s1)"
    then have p: "p \<in> snd ` set (mapBlockIndex s)" "\<not> in_view e (heap s p)"
      "have_data_or_undo e (heap s1 p)" "nFile (heap s p) \<notin> setNeed_of e s"
      unfolding setDelete_of_set need m1 view nfile
      by (simp_all add: have_data_or_undo_cong [OF assms(4,5)])
    show False
    proof (cases "p \<in> set (setDelete_of e s)")
      case True
      with p(3) show False
        by (simp add: h1 have_data_or_undo_clear)
    next
      case False
      with p(3) have "have_data_or_undo e (heap s p)"
        by (simp add: h1)
      with p(1,2,4) have "p \<in> set (setDelete_of e s)"
        unfolding setDelete_of_set by simp
      with False show False ..
    qed
  qed
  then have empty: "setDelete_of e' s1 = []"
    by (cases "setDelete_of e' s1") auto
  have run2: "heap (snd (PurgeDB e' s1)) = heap s1 \<and>
     (\<exists>evs. trace (snd (PurgeDB e' s1)) = trace s1 @ evs \<and>
        (\<forall>ev \<in> set evs. \<not> is_index_write ev) \<and>
        (\<forall>f. Remove f \<in> set evs \<longrightarrow>
           \<not> (exists_pathBlocks e \<and> fst (PurgeDB e s) = Some 0) \<and>
           f \<in> set (pathBlocks s) \<and> reaped (setNeed_of e s) f)) \<and>
     (exists_pathBlocks e \<and> fst (PurgeDB e s) = Some 0 \<longrightarrow>
        pathBlocks (snd (PurgeDB e' s1)) = pathBlocks s1)"
  proof (cases "passes_checks e'")
    case True
    let ?end = "if fst (PurgeDB e' s1) = None then [] else [Unlock]"
    have "\<exists>pre post. trace (snd (PurgeDB e' s1)) = trace s1 @ pre @ post @ ?end \<and>
        (\<forall>ev \<in> set pre. mutator_event e' (heap s1) (setDelete_of e' s1) ev) \<and>
        (exists_pathBlocks e' \<longrightarrow> (\<forall>ev \<in> set post. reaper_event ev) \<and>
           pathBlocks (snd (PurgeDB e' s1)) = filter (\<lambda>f. Remove f \<notin> set post) (pathBlocks s1) \<and>
           (\<forall>f. Remove f \<in> set post \<longrightarrow> f \<in> set (pathBlocks s1) \<and> reaped (setNeed_of e' s1) f)) \<and>
        (\<not> exists_pathBlocks e' \<longrightarrow> post = [LogPrintf ''Could not open blocks directory'' []] \<and>
           pathBlocks (snd (PurgeDB e' s1)) = pathBlocks s1)"
    proof (cases "exists_pathBlocks e'")
      case x: True
      from PurgeDB_run_dir [OF True x, of s1] show ?thesis
        using x by blast
    next
      case x: False
      from PurgeDB_run_nodir [OF True x, of s1] obtain pre where
        "trace (snd (PurgeDB e' s1)) =
           trace s1 @ pre @ [LogPrintf ''Could not open blocks directory'' [], Unlock]"
        "\<forall>ev \<in> set pre. mutator_event e' (heap s1) (setDelete_of e' s1) ev"
        "fst (PurgeDB e' s1) = Some 0" "pathBlocks (snd (PurgeDB e' s1)) = pathBlocks s1"
        by blast
      with x show ?thesis
        by (intro exI [of _ pre] exI [of _ "[LogPrintf ''Could not open blocks directory'' []]"])
           simp
    qed
    then obtain pre post where pp:
      "trace (snd (PurgeDB e' s1)) = trace s1 @ pre @ post @ ?end"
      "\<forall>ev \<in> set pre. mutator_event e' (heap s1) (setDelete_of e' s1) ev"
      "exists_pathBlocks e' \<longrightarrow> (\<forall>ev \<in> set post. reaper_event ev) \<and>
         pathBlocks (snd (PurgeDB e' s1)) = filter (\<lambda>f. Remove f \<notin> set post) (pathBlocks s1) \<and>
         (\<forall>f. Remove f \<in> set post \<longrightarrow> f \<in> set (pathBlocks s1) \<and> reaped (setNeed_of e' s1) f)"
      "\<not> exists_pathBlocks e' \<longrightarrow> post = [LogPrintf ''Could not open blocks directory'' []] \<and>
         pathBlocks (snd (PurgeDB e' s1)) = pathBlocks s1"
      by blast
    have a: "heap (snd (PurgeDB e' s1)) = heap s1"
      by (simp add: PurgeDB_run_heap [OF True] empty)
    have w1: "\<not> is_index_write ev" "\<not> is_remove ev" if "ev \<in> set pre" for ev
      using that pp(2) unfolding empty by (blast dest: mutator_event_facts)+
    have w2: "\<not> is_index_write ev" if "ev \<in> set post" for ev
      using that pp(3,4) by (cases "exists_pathBlocks e'") (auto dest: reaper_event_facts)
    have b: "\<forall>ev \<in> set (pre @ post @ ?end). \<not> is_index_write ev"
      using w1(1) w2 by auto
    have rem: "f \<in> set (pathBlocks s1) \<and> reaped (setNeed_of e s) f"
      if "Remove f \<in> set (pre @ post @ ?end)" for f
    proof -
      from w1(2) have "Remove f \<notin> set pre"
        by force
      with that have r: "Remove f \<in> set post"
        by (simp split: if_splits)
      with pp(4) have "exists_pathBlocks e'"
        by auto
      with pp(3) r show ?thesis
        unfolding need by blast
    qed
    have c: "\<not> (exists_pathBlocks e \<and> fst (PurgeDB e s) = Some 0) \<and>
        f \<in> set (pathBlocks s) \<and> reaped (setNeed_of e s) f"
      if "Remove f \<in> set (pre @ post @ ?end)" for f
      using rem [OF that] sub clean by blast
    have d: "pathBlocks (snd (PurgeDB e' s1)) = pathBlocks s1"
      if "exists_pathBlocks e" "fst (PurgeDB e s) = Some 0"
    proof (cases "exists_pathBlocks e'")
      case False
      with pp(4) show ?thesis by simp
    next
      case x: True
      have "Remove f \<notin> set post" if "f \<in> set (pathBlocks s1)" for f
        using pp(3) x clean [OF \<open>exists_pathBlocks e\<close> \<open>fst (PurgeDB e s) = Some 0\<close> that]
        unfolding need by blast
      then have "filter (\<lambda>f. Remove f \<notin> set post) (pathBlocks s1) = pathBlocks s1"
        by (simp add: filter_id_conv)
      with pp(3) x show ?thesis by simp
    qed
    from a b c d pp(1) show ?thesis by blast
  next
    case False
    from PurgeDB_abort_logs [OF False, of s1] obtain logs where l:
      "PurgeDB e' s1 = (Some 0, s1\<lparr>trace := trace s1 @ logs @ [Unlock]\<rparr>)"
      "\<forall>ev \<in> set logs. is_log ev \<and> \<not> is_remove ev \<and> \<not> is_index_write ev"
      by blast
    have "\<forall>ev \<in> set (logs @ [Unlock]). \<not> is_index_write ev"
      using l(2) by simp
    moreover have "Remove f \<notin> set (logs @ [Unlock])" for f
      using l(2) by auto
    ultimately show ?thesis
      unfolding l(1) by (intro conjI exI [of _ "logs @ [Unlock]"]) simp_all
  qed
  from empty run2 show ?thesis
    unfolding s1_def by blast
qed

theorem C8_second_run_witness:
  "passes_checks e_ex \<and> exists_pathBlocks e_ex \<and> fst (PurgeDB e_ex s_ex) = Some 0 \<and>
   setDelete_of e_ex s_ex = [30, 40] \<and>
   setDelete_of e_ex (snd (PurgeDB e_ex s_ex)) = [] \<and>
   heap (snd (PurgeDB e_ex (snd (PurgeDB e_ex s_ex)))) = heap (snd (PurgeDB e_ex s_ex)) \<and>
   pathBlocks (snd (PurgeDB e_ex (snd (PurgeDB e_ex s_ex)))) = pathBlocks (snd (PurgeDB e_ex s_ex))"
proof -
  have c: "passes_checks e_ex" "exists_pathBlocks e_ex"
    by (simp_all add: passes_checks_def e_ex_def)
  have st: "fst (PurgeDB e_ex s_ex) = Some 0"
    by (simp add: ex_defs)
  have d: "setDelete_of e_ex s_ex = [30, 40]"
    by (simp add: ex_defs)
  from C8_second_run [OF c(1) refl refl refl refl, of s_ex] c st d show ?thesis
    by blast
qed

text \<open>
  C9. \<^verbatim>\<open>PurgeDB\<close> never changes \<^verbatim>\<open>mapBlockIndex\<close>: every hash keeps its entry and its
  \<^verbatim>\<open>CBlockIndex\<close>. Of a \<^verbatim>\<open>CBlockIndex\<close> it leaves \<^verbatim>\<open>nHeight\<close> and \<^verbatim>\<open>nFile\<close> as they were,
  and of \<^verbatim>\<open>nStatus\<close> every bit other than \<^verbatim>\<open>BLOCK_HAVE_DATA\<close> and \<^verbatim>\<open>BLOCK_HAVE_UNDO\<close>.
\<close>

theorem C9_records_kept:
  "mapBlockIndex (snd (PurgeDB e s)) = mapBlockIndex s \<and>
   (\<forall>pindex. nHeight (heap (snd (PurgeDB e s)) pindex) = nHeight (heap s pindex) \<and>
      nFile (heap (snd (PurgeDB e s)) pindex) = nFile (heap s pindex) \<and>
      nStatus (heap (snd (PurgeDB e s)) pindex) AND NOT (BLOCK_HAVE_DATA e OR BLOCK_HAVE_UNDO e) =
        nStatus (heap s pindex) AND NOT (BLOCK_HAVE_DATA e OR BLOCK_HAVE_UNDO e))"
proof (cases "passes_checks e")
  case True
  show ?thesis
    by (simp add: PurgeDB_run_heap [OF True] PurgeDB_run_map [OF True] clear_flags_def)
next
  case False
  from PurgeDB_abort [OF False, of s] obtain logs where
    "PurgeDB e s = (Some 0, s\<lparr>trace := trace s @ logs @ [Unlock]\<rparr>)" by blast
  then show ?thesis by simp
qed

theorem C9_records_kept_witness:
  "mapBlockIndex (snd (PurgeDB e_ex s_ex)) = [(1, 10), (2, 20), (3, 30), (4, 40)] \<and>
   nHeight (heap (snd (PurgeDB e_ex s_ex)) 30) = 3000 \<and>
   nFile (heap (snd (PurgeDB e_ex s_ex)) 30) = 6 \<and>
   nStatus (heap (snd (PurgeDB e_ex s_ex)) 30) AND NOT (8 OR 16) = 5"
proof -
  have "BLOCK_HAVE_DATA e_ex = 8" "BLOCK_HAVE_UNDO e_ex = 16"
    "mapBlockIndex s_ex = [(1, 10), (2, 20), (3, 30), (4, 40)]"
    "heap s_ex 30 = \<lparr>nHeight = 3000, nFile = 6, nStatus = 29\<rparr>"
    by (simp_all add: e_ex_def s_ex_def)
  with C9_records_kept [of e_ex s_ex] show ?thesis
    by simp
qed

text \<open>
  C10. The name \<^verbatim>\<open>blk-0001.dat\<close> has 12 characters and the prefix \<^verbatim>\<open>blk\<close>, what follows the
  prefix is not a run of digits, and still \<^verbatim>\<open>sscanf\<close> reads the index \<open>-1\<close> from it and
  the loop calls \<^verbatim>\<open>remove\<close> for the file whenever \<open>-1\<close> is not in \<^verbatim>\<open>setNeed\<close>: the file is
  gone unless \<^verbatim>\<open>remove\<close> throws. In general the parse accepts white space, then an
  optional sign, then any run of digits before \<^verbatim>\<open>.dat\<close>.
\<close>

theorem C10_lax_index_parse:
  "length ''blk-0001.dat'' = 12 \<and> take 3 ''blk-0001.dat'' = ''blk'' \<and>
   \<not> list_all isdigit (take 5 (drop 3 ''blk-0001.dat'')) \<and>
   sscanf_d (drop 3 ''blk-0001.dat'') = Some (- 1) \<and>
   (\<forall>e setNeed s. - 1 \<notin> setNeed \<and> \<not> remove_throws e ''blk-0001.dat'' \<longrightarrow>
      Remove ''blk-0001.dat''
        \<in> set (trace (state_of (delete_files e setNeed [''blk-0001.dat''] s))) \<and>
      ''blk-0001.dat''
        \<notin> set (pathBlocks (state_of (delete_files e setNeed [''blk-0001.dat''] s)))) \<and>
   (\<forall>e setNeed s. - 1 \<notin> setNeed \<and> remove_throws e ''blk-0001.dat'' \<longrightarrow>
      (\<exists>s'. delete_files e setNeed [''blk-0001.dat''] s =
         Inl (filesystem_error ''blk-0001.dat'', s'))) \<and>
   (\<forall>ws sg ds. list_all isspace ws \<and> (sg = [] \<or> sg = ''+'' \<or> sg = ''-'') \<and>
      ds \<noteq> [] \<and> list_all isdigit ds \<longrightarrow>
      sscanf_d (ws @ sg @ ds @ ''.dat'') =
        Some (if sg = ''-'' then - decimal 0 ds else decimal 0 ds))"
proof -
  have p: "sscanf_d (drop 3 ''blk-0001.dat'') = Some (- 1)"
    by (simp add: sscanf_d_def isspace_def isdigit_def Let_def)
  have n: "\<not> list_all isdigit (take 5 (drop 3 ''blk-0001.dat''))"
    by (simp add: isdigit_def)
  have r: "Remove ''blk-0001.dat''
        \<in> set (trace (state_of (delete_files e setNeed [''blk-0001.dat''] s))) \<and>
      ''blk-0001.dat''
        \<notin> set (pathBlocks (state_of (delete_files e setNeed [''blk-0001.dat''] s)))"
    if "- 1 \<notin> setNeed" "\<not> remove_throws e ''blk-0001.dat''" for e setNeed s
    using that p by (simp add: remove_path_def)
  have t: "\<exists>s'. delete_files e setNeed [''blk-0001.dat''] s =
      Inl (filesystem_error ''blk-0001.dat'', s')"
    if "- 1 \<notin> setNeed" "remove_throws e ''blk-0001.dat''" for e setNeed s
    using that p by (simp add: remove_path_def)
  show ?thesis
  proof (intro conjI)
    show "length ''blk-0001.dat'' = 12" "take 3 ''blk-0001.dat'' = ''blk''"
      by simp_all
    show "\<not> list_all isdigit (take 5 (drop 3 ''blk-0001.dat''))"
      by (rule n)
    show "sscanf_d (drop 3 ''blk-0001.dat'') = Some (- 1)"
      by (rule p)
    show "\<forall>e setNeed s. - 1 \<notin> setNeed \<and> \<not> remove_throws e ''blk-0001.dat'' \<longrightarrow>
        Remove ''blk-0001.dat''
          \<in> set (trace (state_of (delete_files e setNeed [''blk-0001.dat''] s))) \<and>
        ''blk-0001.dat''
          \<notin> set (pathBlocks (state_of (delete_files e setNeed [''blk-0001.dat''] s)))"
      using r by blast
    show "\<forall>e setNeed s. - 1 \<notin> setNeed \<and> remove_throws e ''blk-0001.dat'' \<longrightarrow>
        (\<exists>s'. delete_files e setNeed [''blk-0001.dat''] s =
           Inl (filesystem_error ''blk-0001.dat'', s'))"
      using t by blast
    show "\<forall>ws sg ds. list_all isspace ws \<and> (sg = [] \<or> sg = ''+'' \<or> sg = ''-'') \<and>
        ds \<noteq> [] \<and> list_all isdigit ds \<longrightarrow>
        sscanf_d (ws @ sg @ ds @ ''.dat'') =
          Some (if sg = ''-'' then - decimal 0 ds else decimal 0 ds)"
      using sscanf_d_lax by blast
  qed
qed

theorem C10_lax_index_parse_witness:
  "- 1 \<notin> {7 :: int} \<and> \<not> remove_throws e_ex ''blk-0001.dat'' \<and>
   Remove ''blk-0001.dat''
     \<in> set (trace (state_of (delete_files e_ex {7} [''blk-0001.dat''] s_ex))) \<and>
   list_all isspace '' '' \<and> list_all isdigit ''001'' \<and>
   sscanf_d '' +001.dat'' = Some 1"
proof -
  have h: "- 1 \<notin> {7 :: int}" "\<not> remove_throws e_ex ''blk-0001.dat''"
    "list_all isspace '' ''" "list_all isdigit ''001''"
    by (simp_all add: isspace_def isdigit_def e_ex_def)
  note removes = C10_lax_index_parse [THEN conjunct2, THEN conjunct2, THEN conjunct2,
      THEN conjunct2, THEN conjunct1, rule_format]
  note accepts = C10_lax_index_parse [THEN conjunct2, THEN conjunct2, THEN conjunct2,
      THEN conjunct2, THEN conjunct2, THEN conjunct2, rule_format]
  from h(1,2) have "- 1 \<notin> {7 :: int} \<and> \<not> remove_throws e_ex ''blk-0001.dat''"
    by blast
  from removes [OF this, of s_ex]
  have 1: "Remove ''blk-0001.dat''
      \<in> set (trace (state_of (delete_files e_ex {7} [''blk-0001.dat''] s_ex)))"
    by (rule conjunct1)
  from h(3,4) have "list_all isspace '' '' \<and> (''+'' = [] \<or> ''+'' = ''+'' \<or> ''+'' = ''-'') \<and>
      ''001'' \<noteq> [] \<and> list_all isdigit ''001''"
    by simp
  from accepts [OF this]
  have "sscanf_d ('' '' @ ''+'' @ ''001'' @ ''.dat'') =
      Some (if ''+'' = ''-'' then - decimal 0 ''001'' else decimal 0 ''001'')" .
  then have 2: "sscanf_d '' +001.dat'' = Some 1"
    by simp
  from h 1 2 show ?thesis by blast
qed

end
